theory Spec2Isabelle
  imports Complex_Main "HOL-Library.Monad_Syntax"
begin

section \<open>Values exchanged by the benchmark: JavaScript / JSON values\<close>

text \<open>
  The k6 script and the servers exchange JSON documents. A decoded document is a JavaScript
  value; \<open>JUndef\<close> is the value \<open>undefined\<close> that a missing property reads as. Numbers are
  the exact rational value of the double the runtime holds. An object keeps its entries in
  insertion order, each key once.
\<close>

datatype jsval =
    JUndef
  | JNull
  | JBool bool
  | JNum rat
  | JStr string
  | JArr "jsval list"
  | JObj "(string \<times> jsval) list"

text \<open>JavaScript truthiness (\<open>!x\<close>, \<open>x || y\<close>, \<open>if (x)\<close>).\<close>

fun truthy :: "jsval \<Rightarrow> bool" where
  "truthy JUndef = False"
| "truthy JNull = False"
| "truthy (JBool b) = b"
| "truthy (JNum n) = (n \<noteq> 0)"
| "truthy (JStr s) = (s \<noteq> [])"
| "truthy (JArr xs) = True"
| "truthy (JObj kvs) = True"

section \<open>calculate\_fibonacci on the servers\<close>

text \<open>The n-th Fibonacci number, as the tool's description names it.\<close>

fun fibn :: "nat \<Rightarrow> nat" where
  "fibn 0 = 0"
| "fibn (Suc 0) = 1"
| "fibn (Suc (Suc n)) = fibn n + fibn (Suc n)"

text \<open>
  Node.js (nodejs-server/index.js): \<open>let a = 0, b = 1; for (let i = 0; i < n; i++) [a, b] = [b, a + b];\<close>
  The input is taken as an integer; every intermediate value stays far below \<open>2^53\<close>, where
  doubles are exact.
\<close>

function node_fib_loop :: "int \<Rightarrow> int \<Rightarrow> int \<Rightarrow> int \<Rightarrow> int" where
  "node_fib_loop i n a b = (if i < n then node_fib_loop (i + 1) n b (a + b) else a)"
  by pat_completeness auto
termination
  by (relation "measure (\<lambda>(i, n, a, b). nat (n - i))") auto

declare node_fib_loop.simps [simp del]

text \<open>The object the Node.js handler passes to \<open>JSON.stringify\<close>, or the thrown error's message.\<close>

definition node_calculate_fibonacci :: "int \<Rightarrow> string + jsval" where
  "node_calculate_fibonacci n =
     (if n < 0 \<or> n > 40 then Inl ''n deve estar entre 0 e 40''
      else Inr (JObj [(''input'', JNum (of_int n)),
                      (''result'', JNum (of_int (node_fib_loop 0 n 0 1))),
                      (''server_type'', JStr ''nodejs'')]))"

text \<open>
  Go (go-server, \<open>handleFibonacci\<close>): \<open>int\<close> is a 64-bit two's complement integer; the addition
  wraps around.
\<close>

definition wrap64 :: "int \<Rightarrow> int" where
  "wrap64 x = (x + 2 ^ 63) mod 2 ^ 64 - 2 ^ 63"

function go_fib :: "int \<Rightarrow> int" where
  "go_fib x = (if x \<le> 1 then x else wrap64 (go_fib (x - 1) + go_fib (x - 2)))"
  by pat_completeness auto
termination
  by (relation "measure (\<lambda>x. nat x)") auto

declare go_fib.simps [simp del]

record FibonacciOutput =
  Input :: int
  Result :: int
  ServerType :: string

definition handleFibonacci :: "int \<Rightarrow> string + FibonacciOutput" where
  "handleFibonacci n =
     (if n < 0 \<or> n > 40 then Inl ''n deve estar entre 0 e 40''
      else Inr \<lparr>Input = n, Result = go_fib n, ServerType = ''go''\<rparr>)"

text \<open>
  Java (McpToolsService.calculateFibonacci): \<open>int\<close> is a 32-bit two's complement integer.
  The response is a map with the keys input, result and server\_type.
\<close>

definition wrap32 :: "int \<Rightarrow> int" where
  "wrap32 x = (x + 2 ^ 31) mod 2 ^ 32 - 2 ^ 31"

function fibonacci :: "int \<Rightarrow> int" where
  "fibonacci n = (if n \<le> 1 then n else wrap32 (fibonacci (n - 1) + fibonacci (n - 2)))"
  by pat_completeness auto
termination
  by (relation "measure (\<lambda>x. nat x)") auto

declare fibonacci.simps [simp del]


section \<open>The k6 script (benchmark/benchmark.js): response decoding\<close>

text \<open>
  Strings are lists of 8-bit characters. \<open>String.prototype.trim\<close> strips white space and
  line terminators at both ends: in this range TAB, LF, VT, FF, CR, SPACE and NBSP.
\<close>

definition is_ws :: "char \<Rightarrow> bool" where
  "is_ws c = (c \<in> set [CHR 0x09, CHR 0x0A, CHR 0x0B, CHR 0x0C, CHR 0x0D, CHR 0x20, CHR 0xA0])"

definition trim :: "string \<Rightarrow> string" where
  "trim s = rev (dropWhile is_ws (rev (dropWhile is_ws s)))"

definition startsWith :: "string \<Rightarrow> string \<Rightarrow> bool" where
  "startsWith s p = (take (length p) s = p)"

text \<open>\<open>s.split('\n')\<close>: the pieces between line feeds, at least one piece.\<close>

fun split_nl :: "string \<Rightarrow> string list" where
  "split_nl [] = [[]]"
| "split_nl (c # cs) =
     (if c = CHR 0x0A then [] # split_nl cs
      else (case split_nl cs of [] \<Rightarrow> [[c]] | l # ls \<Rightarrow> (c # l) # ls))"

text \<open>
  \<open>JSON.parse\<close> is a built-in of the runtime and is a parameter \<open>parse\<close> of the model: it
  converts its argument to a string and returns the parsed value, or throws (\<open>None\<close>).
\<close>

type_synonym json_parse = "jsval \<Rightarrow> jsval option"

text \<open>The loop \<open>for (const line of lines)\<close> of \<open>parseBody\<close>; \<open>JNull\<close> is the final \<open>return null\<close>.\<close>

fun sse_lines :: "json_parse \<Rightarrow> string list \<Rightarrow> jsval" where
  "sse_lines parse [] = JNull"
| "sse_lines parse (line # lines) =
     (let trimmed = trim line in
      if startsWith trimmed ''data:'' then
        (let payload = trim (drop 5 trimmed) in
         if payload \<noteq> [] \<and> startsWith payload ''{'' then
           (case parse (JStr payload) of
              Some v \<Rightarrow> v
            | None \<Rightarrow> sse_lines parse lines)
         else sse_lines parse lines)
      else sse_lines parse lines)"

text \<open>\<open>parseBody(body)\<close>; the body of a k6 response is a string or \<open>null\<close> (\<open>None\<close>).\<close>

definition parseBody :: "json_parse \<Rightarrow> string option \<Rightarrow> jsval" where
  "parseBody parse body =
     (case body of
        None \<Rightarrow> JNull
      | Some b \<Rightarrow>
          if b = [] then JNull
          else
            (let text = trim b in
             if length text = 0 then JNull
             else
               (case (if startsWith text ''{'' \<or> startsWith text ''[''
                      then parse (JStr text) else None) of
                  Some v \<Rightarrow> v
                | None \<Rightarrow> sse_lines parse (split_nl text))))"

text \<open>
  The decoding policy in the words of the specification. A data frame is a line whose trimmed
  form starts with the marker \<open>data:\<close> and whose remainder, trimmed, starts with \<open>{\<close> and
  parses; the frames are the lines of the body itself.
\<close>

definition data_frame :: "json_parse \<Rightarrow> string \<Rightarrow> jsval option" where
  "data_frame parse line =
     (if startsWith (trim line) ''data:'' \<and> startsWith (trim (drop 5 (trim line))) ''{''
      then parse (JStr (trim (drop 5 (trim line)))) else None)"

fun first_frame :: "json_parse \<Rightarrow> string list \<Rightarrow> jsval option" where
  "first_frame parse [] = None"
| "first_frame parse (line # lines) =
     (case data_frame parse line of Some v \<Rightarrow> Some v | None \<Rightarrow> first_frame parse lines)"

definition direct_json :: "json_parse \<Rightarrow> string \<Rightarrow> jsval option" where
  "direct_json parse b =
     (if startsWith (trim b) ''{'' \<or> startsWith (trim b) ''['' then parse (JStr (trim b)) else None)"

definition parseBody_spec :: "json_parse \<Rightarrow> string option \<Rightarrow> jsval" where
  "parseBody_spec parse body =
     (case body of
        None \<Rightarrow> JNull
      | Some b \<Rightarrow>
          (case direct_json parse b of
             Some v \<Rightarrow> v
           | None \<Rightarrow>
               (case first_frame parse (split_nl b) of
                  Some v \<Rightarrow> v
                | None \<Rightarrow> JNull)))"

text \<open>
  For evaluation on concrete inputs the built-in \<open>JSON.parse\<close> is given by its values on the
  finitely many strings that occur; it throws on every other argument of the table.
\<close>

definition parse_table :: "(string \<times> jsval) list \<Rightarrow> json_parse" where
  "parse_table tbl v = (case v of JStr s \<Rightarrow> map_of tbl s | _ \<Rightarrow> None)"

section \<open>The k6 script: reading decoded payloads\<close>

text \<open>
  Reading a property of \<open>undefined\<close> or \<open>null\<close> throws a TypeError. \<open>jget v k\<close> is \<open>v.k\<close>
  for a base that is neither, for the property names the script reads (result, error, content,
  text, tools, transformed\_data, name), which no built-in prototype defines: only an object
  can have them. \<open>elem0 v\<close> is \<open>v[0]\<close>: the first element of an array, the first character of
  a string, the property \<open>"0"\<close> of an object. \<open>getp\<close> and \<open>get0\<close> add the TypeError as \<open>None\<close>.
\<close>

definition nullish :: "jsval \<Rightarrow> bool" where
  "nullish v = (v = JUndef \<or> v = JNull)"

fun jget :: "jsval \<Rightarrow> string \<Rightarrow> jsval" where
  "jget (JObj kvs) k = (case map_of kvs k of Some v \<Rightarrow> v | None \<Rightarrow> JUndef)"
| "jget v k = JUndef"

fun elem0 :: "jsval \<Rightarrow> jsval" where
  "elem0 (JArr xs) = (case xs of [] \<Rightarrow> JUndef | x # rest \<Rightarrow> x)"
| "elem0 (JObj kvs) = (case map_of kvs ''0'' of Some v \<Rightarrow> v | None \<Rightarrow> JUndef)"
| "elem0 (JStr s) = (case s of [] \<Rightarrow> JUndef | c # rest \<Rightarrow> JStr [c])"
| "elem0 v = JUndef"

definition getp :: "jsval \<Rightarrow> string \<Rightarrow> jsval option" where
  "getp v k = (if nullish v then None else Some (jget v k))"

definition get0 :: "jsval \<Rightarrow> jsval option" where
  "get0 v = (if nullish v then None else Some (elem0 v))"

text \<open>
  The guard shared by the four scenario checks, \<open>r && r.result && r.result.content\<close>. The
  operators short-circuit, so every property is read from a truthy base.
\<close>

definition has_content :: "jsval \<Rightarrow> bool" where
  "has_content r =
     (truthy r \<and> truthy (jget r ''result'') \<and> truthy (jget (jget r ''result'') ''content''))"

text \<open>
  The \<open>try\<close> block of the fibonacci check,
  \<open>JSON.parse(r.result.content[0].text).result === 55\<close>; \<open>None\<close> is a thrown exception.
\<close>

definition fib_try :: "json_parse \<Rightarrow> jsval \<Rightarrow> bool option" where
  "fib_try parse r =
     do {
       res \<leftarrow> getp r ''result'';
       content \<leftarrow> getp res ''content'';
       first \<leftarrow> get0 content;
       text \<leftarrow> getp first ''text'';
       parsed \<leftarrow> parse text;
       value \<leftarrow> getp parsed ''result'';
       Some (value = JNum 55)
     }"

definition fib_check :: "json_parse \<Rightarrow> jsval \<Rightarrow> bool" where
  "fib_check parse r =
     (if \<not> has_content r then False
      else (case fib_try parse r of Some b \<Rightarrow> b | None \<Rightarrow> False))"

text \<open>
  The \<open>try\<close> block of the transform check,
  \<open>JSON.parse(r.result.content[0].text).transformed_data.name === 'BENCHMARK'\<close>.
\<close>

definition json_try :: "json_parse \<Rightarrow> jsval \<Rightarrow> bool option" where
  "json_try parse r =
     do {
       res \<leftarrow> getp r ''result'';
       content \<leftarrow> getp res ''content'';
       first \<leftarrow> get0 content;
       text \<leftarrow> getp first ''text'';
       parsed \<leftarrow> parse text;
       td \<leftarrow> getp parsed ''transformed_data'';
       value \<leftarrow> getp td ''name'';
       Some (value = JStr ''BENCHMARK'')
     }"

definition json_check :: "json_parse \<Rightarrow> jsval \<Rightarrow> bool" where
  "json_check parse r =
     (if \<not> has_content r then False
      else (case json_try parse r of Some b \<Rightarrow> b | None \<Rightarrow> False))"

text \<open>The checks of fetch\_external\_data and simulate\_database\_query: the guard alone.\<close>

definition content_check :: "json_parse \<Rightarrow> jsval \<Rightarrow> bool" where
  "content_check parse r = has_content r"

text \<open>The check of the standalone listing call, \<open>r && r.result && r.result.tools\<close>.\<close>

definition tools_list_check :: "jsval \<Rightarrow> bool" where
  "tools_list_check r =
     (truthy r \<and> truthy (jget r ''result'') \<and> truthy (jget (jget r ''result'') ''tools''))"

text \<open>
  \<open>const isError = !callResult || callResult.error || !callResult.result\<close> of \<open>mcpSession\<close>;
  the operators short-circuit, so both properties are read from a truthy base.
\<close>

definition isError :: "jsval \<Rightarrow> bool" where
  "isError callResult =
     (\<not> truthy callResult \<or> truthy (jget callResult ''error'') \<or> \<not> truthy (jget callResult ''result''))"

section \<open>The k6 script: requests, metrics and the session driver\<close>

datatype http_method = POST | DELETE

text \<open>
  A request as the script issues it. The body is the payload handed to \<open>JSON.stringify\<close>
  (\<open>None\<close> for the \<open>null\<close> body of \<open>http.del\<close>).
\<close>

record http_request =
  req_method :: http_method
  req_url :: string
  req_body :: "jsval option"
  req_headers :: "(string \<times> string) list"
  req_timeout :: string
  req_tags :: "(string \<times> string) list"

text \<open>
  What the script reads of a k6 response: the headers, the body (\<open>null\<close> when the transport
  failed) and \<open>timings.duration\<close> in milliseconds.
\<close>

record http_response =
  res_headers :: "(string \<times> string) list"
  res_body :: "string option"
  timings_duration :: rat

text \<open>
  The target and the clock are outside the script. \<open>serve\<close> answers a request and changes
  the outside world \<open>'w\<close>; \<open>now\<close> is \<open>Date.now()\<close>; k6 returns a response for a failed
  transport too, it does not throw.
\<close>

record 'w env =
  serve :: "http_request \<Rightarrow> 'w \<Rightarrow> http_response \<times> 'w"
  now :: "'w \<Rightarrow> int"
  JSON_parse :: json_parse
  SERVER_URL :: string

datatype trend =
    initDuration | toolsListDuration | fibDuration | fetchDuration
  | jsonDuration | dbDuration | sessionDuration

text \<open>The custom metrics: Trends and the Rate keep their samples, Counters their sum.\<close>

record metrics =
  trends :: "trend \<Rightarrow> rat list"
  mcpErrors :: nat
  mcpRequests :: nat
  mcpErrorRate :: "bool list"
  checks :: "(string \<times> bool) list"

datatype event = Request http_request | Sleep rat

text \<open>One virtual user: the outside world, what it did so far, and the metrics.\<close>

record 'w vu =
  world :: 'w
  trace :: "event list"
  met :: metrics

definition BASE_HEADERS :: "(string \<times> string) list" where
  "BASE_HEADERS =
     [(''Content-Type'', ''application/json''),
      (''Accept'', ''application/json, text/event-stream'')]"

text \<open>\<open>if (sessionId) headers['Mcp-Session-Id'] = sessionId\<close>; the token is a string or null.\<close>

definition sid_truthy :: "string option \<Rightarrow> bool" where
  "sid_truthy sessionId = (case sessionId of None \<Rightarrow> False | Some s \<Rightarrow> s \<noteq> [])"

definition with_session :: "(string \<times> string) list \<Rightarrow> string option \<Rightarrow> (string \<times> string) list" where
  "with_session hs sessionId =
     (case sessionId of
        None \<Rightarrow> hs
      | Some s \<Rightarrow> if s \<noteq> [] then hs @ [(''Mcp-Session-Id'', s)] else hs)"

text \<open>\<open>res.headers['Mcp-Session-Id'] || sessionId\<close>.\<close>

definition or_session :: "string option \<Rightarrow> string option \<Rightarrow> string option" where
  "or_session h sessionId =
     (case h of None \<Rightarrow> sessionId | Some v \<Rightarrow> if v \<noteq> [] then Some v else sessionId)"

definition http_send :: "'w env \<Rightarrow> http_request \<Rightarrow> 'w vu \<Rightarrow> http_response \<times> 'w vu" where
  "http_send E req st =
     (case serve E req (world st) of
        (res, w') \<Rightarrow> (res, st\<lparr>world := w', trace := trace st @ [Request req]\<rparr>))"

definition add_trend :: "trend \<Rightarrow> rat \<Rightarrow> 'w vu \<Rightarrow> 'w vu" where
  "add_trend t v st = st\<lparr>met := (met st)\<lparr>trends := (trends (met st))(t := trends (met st) t @ [v])\<rparr>\<rparr>"

definition add_check :: "string \<Rightarrow> bool \<Rightarrow> 'w vu \<Rightarrow> 'w vu" where
  "add_check n ok st = st\<lparr>met := (met st)\<lparr>checks := checks (met st) @ [(n, ok)]\<rparr>\<rparr>"

definition post_request :: "'w env \<Rightarrow> jsval \<Rightarrow> (string \<times> string) list \<Rightarrow> string \<Rightarrow> http_request" where
  "post_request E payload hs t =
     \<lparr>req_method = POST, req_url = SERVER_URL E, req_body = Some payload,
      req_headers = hs, req_timeout = t, req_tags = []\<rparr>"

definition del_request :: "'w env \<Rightarrow> string \<Rightarrow> http_request" where
  "del_request E s =
     \<lparr>req_method = DELETE, req_url = SERVER_URL E, req_body = None,
      req_headers = [(''Mcp-Session-Id'', s)], req_timeout = ''2s'',
      req_tags = [(''name'', ''session_cleanup'')]\<rparr>"

text \<open>\<open>mcpPost(payload, sessionId)\<close> returns \<open>{ res, result, sessionId: newSessionId }\<close>.\<close>

definition mcpPost ::
  "'w env \<Rightarrow> jsval \<Rightarrow> string option \<Rightarrow> 'w vu \<Rightarrow> (http_response \<times> jsval \<times> string option) \<times> 'w vu" where
  "mcpPost E payload sessionId st =
     (case http_send E (post_request E payload (with_session BASE_HEADERS sessionId) ''15s'') st of
        (res, st1) \<Rightarrow>
          (let st2 = st1\<lparr>met := (met st1)\<lparr>mcpRequests := mcpRequests (met st1) + 1\<rparr>\<rparr>;
               newSessionId = or_session (map_of (res_headers res) ''Mcp-Session-Id'') sessionId;
               result = parseBody (JSON_parse E) (res_body res)
           in ((res, result, newSessionId), st2)))"

definition initialize_payload :: jsval where
  "initialize_payload =
     JObj [(''jsonrpc'', JStr ''2.0''), (''id'', JNum 1), (''method'', JStr ''initialize''),
           (''params'', JObj [(''protocolVersion'', JStr ''2024-11-05''),
                              (''capabilities'', JObj []),
                              (''clientInfo'', JObj [(''name'', JStr ''k6-bench''),
                                                     (''version'', JStr ''1.0'')])])]"

definition initialized_payload :: jsval where
  "initialized_payload =
     JObj [(''jsonrpc'', JStr ''2.0''), (''method'', JStr ''notifications/initialized'')]"

definition tools_call_payload :: "string \<Rightarrow> jsval \<Rightarrow> jsval" where
  "tools_call_payload toolName toolArgs =
     JObj [(''jsonrpc'', JStr ''2.0''), (''id'', JNum 2), (''method'', JStr ''tools/call''),
           (''params'', JObj [(''name'', JStr toolName), (''arguments'', toolArgs)])]"

definition tools_list_payload :: jsval where
  "tools_list_payload =
     JObj [(''jsonrpc'', JStr ''2.0''), (''id'', JNum 2), (''method'', JStr ''tools/list''),
           (''params'', JObj [])]"

text \<open>Step 2 of a session: the notification; its response is dropped.\<close>

definition send_initialized :: "'w env \<Rightarrow> string option \<Rightarrow> 'w vu \<Rightarrow> 'w vu" where
  "send_initialized E sessionId st =
     snd (http_send E (post_request E initialized_payload (with_session BASE_HEADERS sessionId) ''5s'') st)"

text \<open>Step 4 of a session: \<open>if (sessionId) http.del(...)\<close>; the response is dropped.\<close>

definition close_session :: "'w env \<Rightarrow> string option \<Rightarrow> 'w vu \<Rightarrow> 'w vu" where
  "close_session E sessionId st =
     (case sessionId of
        None \<Rightarrow> st
      | Some s \<Rightarrow> if s \<noteq> [] then snd (http_send E (del_request E s) st) else st)"

text \<open>The "Track errors" block of \<open>mcpSession\<close>.\<close>

definition track_errors :: "jsval \<Rightarrow> 'w vu \<Rightarrow> 'w vu" where
  "track_errors callResult st =
     (if isError callResult
      then st\<lparr>met := (met st)\<lparr>mcpErrors := mcpErrors (met st) + 1,
                              mcpErrorRate := mcpErrorRate (met st) @ [True]\<rparr>\<rparr>
      else st\<lparr>met := (met st)\<lparr>mcpErrorRate := mcpErrorRate (met st) @ [False]\<rparr>\<rparr>)"

record session_result =
  initRes :: http_response
  callRes :: http_response
  callResult :: jsval
  totalDuration :: int
  sessionId :: "string option"

definition mcpSession :: "'w env \<Rightarrow> string \<Rightarrow> jsval \<Rightarrow> 'w vu \<Rightarrow> session_result \<times> 'w vu" where
  "mcpSession E toolName toolArgs st =
     (let start = now E (world st) in
      case mcpPost E initialize_payload None st of
        ((ires, iresult, sid), st1) \<Rightarrow>
          (let st2 = send_initialized E sid st1 in
           case mcpPost E (tools_call_payload toolName toolArgs) sid st2 of
             ((cres, cresult, sid'), st3) \<Rightarrow>
               (let total = now E (world st3) - start;
                    st4 = close_session E sid st3;
                    st5 = track_errors cresult st4
                in (\<lparr>initRes = ires, callRes = cres, callResult = cresult,
                      totalDuration = total, sessionId = sid\<rparr>, st5))))"

section \<open>The k6 script: scenarios and one loop iteration of a virtual user\<close>

record tool =
  name :: string
  args :: jsval
  metric :: trend
  checkName :: string
  check :: "json_parse \<Rightarrow> jsval \<Rightarrow> bool"

definition TOOLS :: "tool list" where
  "TOOLS =
     [\<lparr>name = ''calculate_fibonacci'',
       args = JObj [(''n'', JNum 10)],
       metric = fibDuration, checkName = ''fibonacci ok'', check = fib_check\<rparr>,
      \<lparr>name = ''fetch_external_data'',
       args = JObj [(''endpoint'', JStr ''http://mock-api:1080/api'')],
       metric = fetchDuration, checkName = ''fetch ok'', check = content_check\<rparr>,
      \<lparr>name = ''process_json_data'',
       args = JObj [(''data'', JObj [(''name'', JStr ''benchmark''), (''count'', JNum 42),
                                     (''nested'', JObj [(''key'', JStr ''value'')])])],
       metric = jsonDuration, checkName = ''json_process ok'', check = json_check\<rparr>,
      \<lparr>name = ''simulate_database_query'',
       args = JObj [(''query'', JStr ''SELECT * FROM benchmarks''), (''delay_ms'', JNum 10)],
       metric = dbDuration, checkName = ''db_query ok'', check = content_check\<rparr>]"

text \<open>The body of \<open>for (const tool of TOOLS)\<close> in the default function.\<close>

definition run_tool :: "'w env \<Rightarrow> tool \<Rightarrow> 'w vu \<Rightarrow> 'w vu" where
  "run_tool E t st =
     (case mcpSession E (name t) (args t) st of
        (r, st1) \<Rightarrow>
          add_check (checkName t) (check t (JSON_parse E) (callResult r))
            (add_trend sessionDuration (of_int (totalDuration r))
              (add_trend (metric t) (timings_duration (callRes r))
                (add_trend initDuration (timings_duration (initRes r)) st1))))"

fun run_tools :: "'w env \<Rightarrow> tool list \<Rightarrow> 'w vu \<Rightarrow> 'w vu" where
  "run_tools E [] st = st"
| "run_tools E (t # ts) st = run_tools E ts (run_tool E t st)"

text \<open>The block "Also benchmark tools/list in its own session".\<close>

definition tools_list_session :: "'w env \<Rightarrow> 'w vu \<Rightarrow> 'w vu" where
  "tools_list_session E st =
     (case mcpPost E initialize_payload None st of
        ((ires, iresult, sid), st1) \<Rightarrow>
          (let st2 = send_initialized E sid st1 in
           case mcpPost E tools_list_payload sid st2 of
             ((lres, lresult, sid'), st3) \<Rightarrow>
               close_session E sid
                 (add_check ''tools/list ok'' (tools_list_check lresult)
                   (add_trend toolsListDuration (timings_duration lres) st3))))"

definition sleep :: "rat \<Rightarrow> 'w vu \<Rightarrow> 'w vu" where
  "sleep secs st = st\<lparr>trace := trace st @ [Sleep secs]\<rparr>"

text \<open>The default function: one iteration of a virtual user's loop.\<close>

definition default_fn :: "'w env \<Rightarrow> 'w vu \<Rightarrow> 'w vu" where
  "default_fn E st = sleep (1 / 10) (tools_list_session E (run_tools E TOOLS st))"

text \<open>A virtual user repeats the default function until the run ends.\<close>

fun iterations :: "'w env \<Rightarrow> nat \<Rightarrow> 'w vu \<Rightarrow> 'w vu" where
  "iterations E 0 st = st"
| "iterations E (Suc k) st = iterations E k (default_fn E st)"

section \<open>Notions used to state the properties of a run\<close>

text \<open>The JSON-RPC method a sent request carries, if it is a POST with a payload.\<close>

definition rpc_method :: "event \<Rightarrow> string option" where
  "rpc_method e =
     (case e of
        Sleep d \<Rightarrow> None
      | Request r \<Rightarrow>
          (case req_body r of
             None \<Rightarrow> None
           | Some p \<Rightarrow> (case jget p ''method'' of JStr s \<Rightarrow> Some s | _ \<Rightarrow> None)))"

definition is_handshake :: "event \<Rightarrow> bool" where
  "is_handshake e = (rpc_method e = Some ''initialize'')"

definition is_invoke :: "event \<Rightarrow> bool" where
  "is_invoke e = (rpc_method e = Some ''tools/call'' \<or> rpc_method e = Some ''tools/list'')"

definition is_acknowledge :: "event \<Rightarrow> bool" where
  "is_acknowledge e = (rpc_method e = Some ''notifications/initialized'')"

definition is_teardown :: "event \<Rightarrow> bool" where
  "is_teardown e = (case e of Sleep d \<Rightarrow> False | Request r \<Rightarrow> req_method r = DELETE)"

definition handshake_invoke_steps :: "event list \<Rightarrow> nat" where
  "handshake_invoke_steps tr = length (filter (\<lambda>e. is_handshake e \<or> is_invoke e) tr)"

text \<open>The requests of one full session with token \<open>sid\<close> and invoke payload \<open>invoke\<close>, in order.\<close>

definition session_events :: "'w env \<Rightarrow> jsval \<Rightarrow> string option \<Rightarrow> event list" where
  "session_events E invoke sid =
     [Request (post_request E initialize_payload BASE_HEADERS ''15s''),
      Request (post_request E initialized_payload (with_session BASE_HEADERS sid) ''5s''),
      Request (post_request E invoke (with_session BASE_HEADERS sid) ''15s'')]
     @ (case sid of
          None \<Rightarrow> []
        | Some s \<Rightarrow> if s \<noteq> [] then [Request (del_request E s)] else [])"

definition no_metrics :: metrics where
  "no_metrics =
     \<lparr>trends = (\<lambda>t. []), mcpErrors = 0, mcpRequests = 0, mcpErrorRate = [], checks = []\<rparr>"

definition initial_vu :: "'w \<Rightarrow> 'w vu" where
  "initial_vu w = \<lparr>world = w, trace = [], met = no_metrics\<rparr>"

text \<open>
  A stub target for evaluating the script on concrete inputs: it answers every POST with the
  same token header and body, and every DELETE with \<open>del_res\<close>; the world counts the requests
  and the clock advances three milliseconds per request.
\<close>

definition stub_serve ::
  "string option \<Rightarrow> string option \<Rightarrow> http_response \<Rightarrow> http_request \<Rightarrow> nat \<Rightarrow> http_response \<times> nat" where
  "stub_serve token reply del_res req w =
     (case req_method req of
        DELETE \<Rightarrow> (del_res, w + 1)
      | POST \<Rightarrow>
          (\<lparr>res_headers = (case token of None \<Rightarrow> [] | Some t \<Rightarrow> [(''Mcp-Session-Id'', t)]),
            res_body = reply, timings_duration = 1\<rparr>, w + 1))"

definition stub_env ::
  "string option \<Rightarrow> string option \<Rightarrow> http_response \<Rightarrow> (string \<times> jsval) list \<Rightarrow> nat env" where
  "stub_env token reply del_res tbl =
     \<lparr>serve = stub_serve token reply del_res, now = (\<lambda>w. 3 * int w),
      JSON_parse = parse_table tbl, SERVER_URL = ''http://localhost:8080/mcp''\<rparr>"

definition failed_response :: http_response where
  "failed_response = \<lparr>res_headers = [], res_body = None, timings_duration = 2000\<rparr>"

definition empty_response :: http_response where
  "empty_response = \<lparr>res_headers = [], res_body = Some [], timings_duration = 1\<rparr>"

text \<open>The operation an invoke request asks for: the tool's name, or the listing call.\<close>

definition invoked_operation :: "event \<Rightarrow> string option" where
  "invoked_operation e =
     (case e of
        Sleep d \<Rightarrow> None
      | Request r \<Rightarrow>
          (case req_body r of
             None \<Rightarrow> None
           | Some p \<Rightarrow>
               if jget p ''method'' = JStr ''tools/list'' then Some ''tools/list''
               else if jget p ''method'' = JStr ''tools/call''
               then (case jget (jget p ''params'') ''name'' of JStr s \<Rightarrow> Some s | _ \<Rightarrow> None)
               else None))"

text \<open>
  Concrete replies of a target to a fibonacci call. \<open>escaped\<close> is how a string without
  control characters appears inside a JSON string: every double quote behind a backslash.
\<close>

definition escaped :: "string \<Rightarrow> string" where
  "escaped s = concat (map (\<lambda>c. if c = CHR 0x22 then [CHR 0x5C, c] else [c]) s)"

definition fib_text :: "string \<Rightarrow> string" where
  \<open>fib_text digits = ''{"input":10,"result":'' @ digits @ '',"server_type":"go"}''\<close>

definition fib_body :: "string \<Rightarrow> string" where
  \<open>fib_body digits =
     ''{"jsonrpc":"2.0","id":2,"result":{"content":[{"type":"text","text":"''
     @ escaped (fib_text digits) @ ''"}]}}''\<close>

definition fib_payload :: "string \<Rightarrow> jsval" where
  "fib_payload digits =
     JObj [(''jsonrpc'', JStr ''2.0''), (''id'', JNum 2),
           (''result'', JObj [(''content'',
              JArr [JObj [(''type'', JStr ''text''), (''text'', JStr (fib_text digits))]])])]"

definition fib_output :: "rat \<Rightarrow> jsval" where
  "fib_output r = JObj [(''input'', JNum 10), (''result'', JNum r), (''server_type'', JStr ''go'')]"

text \<open>A target that answers the fibonacci call with the result 54, and one that answers 55.\<close>

definition wrong_fib_env :: "nat env" where
  "wrong_fib_env =
     stub_env (Some ''s1'') (Some (fib_body ''54'')) empty_response
       [(fib_body ''54'', fib_payload ''54''), (fib_text ''54'', fib_output 54)]"

definition right_fib_env :: "http_response \<Rightarrow> nat env" where
  "right_fib_env del_res =
     stub_env (Some ''s1'') (Some (fib_body ''55'')) del_res
       [(fib_body ''55'', fib_payload ''55''), (fib_text ''55'', fib_output 55)]"

section \<open>process\_json\_data on the servers\<close>

text \<open>
  Upper-casing of strings (\<open>toUpperCase\<close>, \<open>strings.ToUpper\<close>), for ASCII text: the letters
  \<open>a\<close> to \<open>z\<close> are mapped to \<open>A\<close> to \<open>Z\<close>, every other character is kept.
\<close>

definition upper_char :: "char \<Rightarrow> char" where
  "upper_char c =
     (if (97::nat) \<le> of_char c \<and> of_char c \<le> (122::nat)
      then char_of (of_char c - (32::nat)) else c)"

definition toUpperCase :: "string \<Rightarrow> string" where
  "toUpperCase s = map upper_char s"

text \<open>Node.js (nodejs-server/index.js), \<open>transformStrings\<close> inside process\_json\_data.\<close>

fun node_transformStrings :: "jsval \<Rightarrow> jsval" where
  "node_transformStrings (JArr xs) = JArr (map node_transformStrings xs)"
| "node_transformStrings (JObj kvs) = JObj (map (\<lambda>(key, v). (key, node_transformStrings v)) kvs)"
| "node_transformStrings (JStr s) = JStr (toUpperCase s)"
| "node_transformStrings v = v"


text \<open>
  Go (\<open>handleProcessData\<close>): the type switch over map, slice and string. A Go map has no
  order; the model keeps the entries in the order of the input.
\<close>

fun go_transformStrings :: "jsval \<Rightarrow> jsval" where
  "go_transformStrings (JObj kvs) = JObj (map (\<lambda>(key, v). (key, go_transformStrings v)) kvs)"
| "go_transformStrings (JArr xs) = JArr (map go_transformStrings xs)"
| "go_transformStrings (JStr s) = JStr (toUpperCase s)"
| "go_transformStrings v = v"



text \<open>
  Java (McpToolsService.transformStrings): strings are upper-cased, nested maps transformed,
  every other value (numbers, booleans, null, lists) is put back as it is.
\<close>

fun transformStrings :: "(string \<times> jsval) list \<Rightarrow> (string \<times> jsval) list" where
  "transformStrings [] = []"
| "transformStrings ((key, v) # entries) =
     (key, (case v of
              JStr s \<Rightarrow> JStr (toUpperCase s)
            | JObj obj \<Rightarrow> JObj (transformStrings obj)
            | _ \<Rightarrow> v)) # transformStrings entries"


text \<open>The argument of the transform scenario, \<open>TOOLS[2].args.data\<close>.\<close>

definition benchmark_data :: "(string \<times> jsval) list" where
  "benchmark_data =
     [(''name'', JStr ''benchmark''), (''count'', JNum 42),
      (''nested'', JObj [(''key'', JStr ''value'')])]"

section \<open>Notions used to state the properties of the checks\<close>





section \<open>The k6 script: thresholds and the summary\<close>

text \<open>
  What k6 hands to \<open>handleSummary\<close> as \<open>data.metrics\<close>: for every metric that has samples its
  aggregated \<open>values\<close> and, for a metric with thresholds, whether each threshold expression
  passed (\<open>thresholds[expr].ok\<close>).
\<close>

record metric_data =
  mvalues :: "(string \<times> rat) list"
  mthresholds :: "(string \<times> bool) list"






text \<open>
  \<open>getValue\<close>, \<open>getPercentile\<close> and \<open>extractTrend\<close>: reading \<open>.values\<close> of a metric that is
  not in the data throws, and the \<open>catch\<close> returns the fallback (\<open>undefined\<close> when the caller
  passes none) or \<open>null\<close>; a key missing in \<open>values\<close> reads as \<open>undefined\<close>.
\<close>

definition value_of :: "metric_data \<Rightarrow> string \<Rightarrow> jsval" where
  "value_of md key = (case map_of (mvalues md) key of None \<Rightarrow> JUndef | Some v \<Rightarrow> JNum v)"












section \<open>The orchestrator (benchmark/run\_benchmark.sh)\<close>

text \<open>
  The external commands the script runs. Whether a command succeeds (exit status 0) is decided
  outside the script, by a runner on the outside world \<open>'w\<close>. The log keeps the commands run
  and the messages of \<open>info\<close>, \<open>ok\<close>, \<open>warn\<close> and \<open>error\<close> (without the elapsed seconds some of
  them print); the banners written with plain \<open>echo\<close> are left out.
\<close>

datatype cmd =
    Mkdir string
  | Cd string
  | ComposeStopAll
  | ComposeUp string
  | ComposeUpMockApi
  | CurlMockStatus
  | CurlHealth string string
  | CurlInitialize string string
  | CurlToolCall string
  | SleepCmd nat
  | CollectStats string string
  | K6Run string string string
  | KillStats
  | WaitStats
  | Consolidate string

datatype entry = Run cmd | Info string | Ok string | Warn string | Err string

type_synonym 'w runner = "cmd \<Rightarrow> 'w \<Rightarrow> bool \<times> 'w"

record 'w sh =
  sh_world :: 'w
  sh_log :: "entry list"

record dirs =
  SCRIPT_DIR :: string
  PROJECT_DIR :: string
  RESULTS_DIR :: string

definition SERVERS :: "(string \<times> string \<times> string) list" where
  "SERVERS =
     [(''python'', ''mcp-python-server'', ''8082''),
      (''go'', ''mcp-go-server'', ''8081''),
      (''nodejs'', ''mcp-nodejs-server'', ''8083''),
      (''java'', ''mcp-java-server'', ''8080''),
      (''rust'', ''mcp-rust-server'', ''8084'')]"

definition run :: "'w runner \<Rightarrow> cmd \<Rightarrow> 'w sh \<Rightarrow> bool \<times> 'w sh" where
  "run X c s =
     (case X c (sh_world s) of
        (status, w') \<Rightarrow> (status, s\<lparr>sh_world := w', sh_log := sh_log s @ [Run c]\<rparr>))"

definition say :: "entry \<Rightarrow> 'w sh \<Rightarrow> 'w sh" where
  "say e s = s\<lparr>sh_log := sh_log s @ [e]\<rparr>"

text \<open>
  The script runs under \<open>set -e\<close>: a failing simple command ends the script, except in the
  condition of an \<open>if\<close> or \<open>while\<close>, on the left of \<open>||\<close>, and in everything called from
  there. \<open>run_e X errexit c\<close> runs \<open>c\<close> and tells whether the script goes on.
\<close>

definition run_e :: "'w runner \<Rightarrow> bool \<Rightarrow> cmd \<Rightarrow> 'w sh \<Rightarrow> bool \<times> 'w sh" where
  "run_e X errexit c s =
     (case run X c s of (status, s') \<Rightarrow> (status \<or> \<not> errexit, s'))"

text \<open>
  \<open>wait_for_mock_api\<close>, called by \<open>main\<close> with \<open>set -e\<close> in force: \<open>False\<close> is \<open>return 1\<close>
  or a failing \<open>sleep\<close>, which both end the script.
\<close>

function wait_for_mock_api_loop :: "'w runner \<Rightarrow> nat \<Rightarrow> 'w sh \<Rightarrow> bool \<times> 'w sh" where
  "wait_for_mock_api_loop X elapsed s =
     (case run X CurlMockStatus s of
        (True, s1) \<Rightarrow> (True, say (Ok ''mock-api is ready'') s1)
      | (False, s1) \<Rightarrow>
          (case run X (SleepCmd 1) s1 of
             (False, s2) \<Rightarrow> (False, s2)
           | (True, s2) \<Rightarrow>
               if elapsed + 1 \<ge> 60
               then (False, say (Err ''mock-api failed to start after 60s'') s2)
               else wait_for_mock_api_loop X (elapsed + 1) s2))"
  by pat_completeness auto
termination
  by (relation "measure (\<lambda>(X, elapsed, s). 60 - elapsed)") auto

declare wait_for_mock_api_loop.simps [simp del]

definition wait_for_mock_api :: "'w runner \<Rightarrow> 'w sh \<Rightarrow> bool \<times> 'w sh" where
  "wait_for_mock_api X s =
     wait_for_mock_api_loop X 0 (say (Info ''Waiting for mock-api to be ready...'') s)"

text \<open>
  \<open>wait_for_health port name\<close>, with \<open>max_wait=60\<close>. It is only called in the condition of an
  \<open>if\<close>, so a failing \<open>sleep\<close> does not end the script. One round tries the three probes in
  order; the result is the return status (\<open>True\<close> for 0).
\<close>

definition health_url :: "string \<Rightarrow> string" where
  "health_url port = ''http://localhost:'' @ port @ ''/mcp''"

function wait_for_health_loop :: "'w runner \<Rightarrow> string \<Rightarrow> string \<Rightarrow> nat \<Rightarrow> 'w sh \<Rightarrow> bool \<times> 'w sh" where
  "wait_for_health_loop X port n elapsed s =
     (case run X (CurlHealth port ''/health'') s of
        (True, s1) \<Rightarrow> (True, say (Ok (n @ '' is ready'')) s1)
      | (False, s1) \<Rightarrow>
          (case run X (CurlHealth port ''/actuator/health'') s1 of
             (True, s2) \<Rightarrow> (True, say (Ok (n @ '' is ready'')) s2)
           | (False, s2) \<Rightarrow>
               (case run X (CurlInitialize (health_url port) ''health'') s2 of
                  (True, s3) \<Rightarrow> (True, say (Ok (n @ '' is ready'')) s3)
                | (False, s3) \<Rightarrow>
                    (case run X (SleepCmd 1) s3 of
                       (slept, s4) \<Rightarrow>
                         if elapsed + 1 \<ge> 60
                         then (False, say (Err (n @ '' failed to start after 60s'')) s4)
                         else wait_for_health_loop X port n (elapsed + 1) s4))))"
  by pat_completeness auto
termination
  by (relation "measure (\<lambda>(X, port, n, elapsed, s). 60 - elapsed)") auto

declare wait_for_health_loop.simps [simp del]

definition wait_for_health :: "'w runner \<Rightarrow> string \<Rightarrow> string \<Rightarrow> 'w sh \<Rightarrow> bool \<times> 'w sh" where
  "wait_for_health X port n s =
     wait_for_health_loop X port n 0
       (say (Info (''Waiting for '' @ n @ '' to be ready (port '' @ port @ '')...'')) s)"

text \<open>\<open>warmup url name\<close>: every \<open>curl\<close> is followed by \<open>|| true\<close>.\<close>

fun repeat_cmds :: "'w runner \<Rightarrow> nat \<Rightarrow> cmd list \<Rightarrow> 'w sh \<Rightarrow> 'w sh" where
  "repeat_cmds X 0 cs s = s"
| "repeat_cmds X (Suc k) cs s = repeat_cmds X k cs (fold (\<lambda>c st. snd (run X c st)) cs s)"

definition warmup :: "'w runner \<Rightarrow> string \<Rightarrow> string \<Rightarrow> 'w sh \<Rightarrow> 'w sh" where
  "warmup X url n s =
     say (Ok ''Warmup complete'')
       (repeat_cmds X 5 [CurlInitialize url ''warmup'', CurlToolCall url]
         (repeat_cmds X 10 [CurlInitialize url ''warmup'']
           (say (Info (''Warming up '' @ n @ '' (10 init + 5 tool calls)...'')) s)))"

text \<open>\<open>stop_all_servers\<close>; the result tells whether the script goes on.\<close>

definition stop_all_servers :: "'w runner \<Rightarrow> bool \<Rightarrow> dirs \<Rightarrow> 'w sh \<Rightarrow> bool \<times> 'w sh" where
  "stop_all_servers X errexit D s =
     (case run_e X errexit (Cd (PROJECT_DIR D)) (say (Info ''Stopping all MCP server containers...'') s) of
        (False, s1) \<Rightarrow> (False, s1)
      | (True, s1) \<Rightarrow>
          (case run X ComposeStopAll s1 of
             (stopped, s2) \<Rightarrow>
               (case run_e X errexit (SleepCmd 2) s2 of
                  (False, s3) \<Rightarrow> (False, s3)
                | (True, s3) \<Rightarrow> (True, say (Ok ''All servers stopped'') s3))))"

text \<open>\<open>start_server service\<close>, only called from \<open>benchmark_server\<close>.\<close>

definition start_server :: "'w runner \<Rightarrow> dirs \<Rightarrow> string \<Rightarrow> 'w sh \<Rightarrow> 'w sh" where
  "start_server X D service s =
     snd (run X (ComposeUp service)
            (snd (run X (Cd (PROJECT_DIR D)) (say (Info (''Starting '' @ service @ ''...'')) s))))"

text \<open>
  \<open>benchmark_server name\<close>, for a name with the entry \<open>container:port\<close> in \<open>SERVERS\<close>. \<open>main\<close>
  calls it on the left of \<open>||\<close>, so no failing command in it ends the script; the result is
  its return status.
\<close>

definition benchmark_server ::
  "'w runner \<Rightarrow> dirs \<Rightarrow> string \<Rightarrow> string \<Rightarrow> string \<Rightarrow> 'w sh \<Rightarrow> bool \<times> 'w sh" where
  "benchmark_server X D n container port s =
     (let service = n @ ''-server'';
          url = ''http://localhost:'' @ port @ ''/mcp'';
          server_results = RESULTS_DIR D @ ''/'' @ n;
          s1 = snd (run X (Mkdir server_results) s);
          s2 = snd (stop_all_servers X False D s1);
          s3 = start_server X D service s2
      in case wait_for_health X port n s3 of
           (False, s4) \<Rightarrow> (False, say (Err (''Skipping '' @ n @ '' - failed to start'')) s4)
         | (True, s4) \<Rightarrow>
             (let s5 = warmup X url n s4;
                  s6 = snd (run X (CollectStats container (server_results @ ''/stats.json''))
                              (say (Info ''Starting Docker stats collector...'') s5));
                  s7 = snd (run X (SleepCmd 1) s6);
                  s8 = snd (run X (K6Run url n (server_results @ ''/k6.json''))
                              (say (Info ''Running k6 benchmark (50 VUs, 5m)...'') s7));
                  s9 = snd (run X KillStats (say (Info ''Stopping stats collector...'') s8));
                  s10 = snd (run X WaitStats s9)
              in (True, say (Ok (''Benchmark complete for '' @ n)) s10)))"

text \<open>
  The loop \<open>for name in ...; do benchmark_server "$name" || warn "..."; done\<close>. Expanding
  \<open>${SERVERS[$name]}\<close> for a name without an entry ends the script (\<open>set -u\<close>): \<open>None\<close>.
\<close>

fun benchmark_each :: "'w runner \<Rightarrow> dirs \<Rightarrow> string list \<Rightarrow> 'w sh \<Rightarrow> 'w sh option" where
  "benchmark_each X D [] s = Some s"
| "benchmark_each X D (n # ns) s =
     (case map_of SERVERS n of
        None \<Rightarrow> None
      | Some (container, port) \<Rightarrow>
          (case benchmark_server X D n container port s of
             (True, s') \<Rightarrow> benchmark_each X D ns s'
           | (False, s') \<Rightarrow>
               benchmark_each X D ns
                 (say (Warn (''Failed to benchmark '' @ n @ '', continuing...'')) s')))"

text \<open>
  \<open>main\<close> over a list of target names (the script's list is \<open>rust java go\<close>), in three
  parts: the commands before the loop, the loop, and the commands after it. The result tells
  whether the script ran to its end; before and after the loop \<open>set -e\<close> is in force.
\<close>

definition main_setup :: "'w runner \<Rightarrow> dirs \<Rightarrow> 'w sh \<Rightarrow> bool \<times> 'w sh" where
  "main_setup X D s =
     (case run X (Mkdir (RESULTS_DIR D)) s of
        (False, s1) \<Rightarrow> (False, s1)
      | (True, s1) \<Rightarrow>
          (case run X (Cd (PROJECT_DIR D)) (say (Info ''Ensuring mock-api is running...'') s1) of
             (False, s2) \<Rightarrow> (False, s2)
           | (True, s2) \<Rightarrow>
               (case run X ComposeUpMockApi s2 of
                  (False, s3) \<Rightarrow> (False, s3)
                | (True, s3) \<Rightarrow> wait_for_mock_api X s3)))"

definition main_finish :: "'w runner \<Rightarrow> dirs \<Rightarrow> 'w sh \<Rightarrow> bool \<times> 'w sh" where
  "main_finish X D s =
     (case stop_all_servers X True D s of
        (False, s1) \<Rightarrow> (False, s1)
      | (True, s1) \<Rightarrow>
          run X (Consolidate (RESULTS_DIR D)) (say (Info ''Consolidating results...'') s1))"

definition main :: "'w runner \<Rightarrow> dirs \<Rightarrow> string list \<Rightarrow> 'w sh \<Rightarrow> bool \<times> 'w sh" where
  "main X D names s =
     (case main_setup X D s of
        (False, s1) \<Rightarrow> (False, s1)
      | (True, s1) \<Rightarrow>
          (case benchmark_each X D names s1 of
             None \<Rightarrow> (False, s1)
           | Some s2 \<Rightarrow> main_finish X D s2))"

definition script_targets :: "string list" where
  "script_targets = [''rust'', ''java'', ''go'']"

section \<open>Notions used to state the properties of the orchestrator\<close>

text \<open>A command of the warmup, the resource sampling or the load of a target.\<close>

definition is_measurement :: "entry \<Rightarrow> bool" where
  "is_measurement e =
     (case e of
        Run c \<Rightarrow>
          (case c of
             CurlInitialize url who \<Rightarrow> who = ''warmup''
           | CurlToolCall url \<Rightarrow> True
           | CollectStats container out \<Rightarrow> True
           | K6Run url n out \<Rightarrow> True
           | KillStats \<Rightarrow> True
           | WaitStats \<Rightarrow> True
           | _ \<Rightarrow> False)
      | _ \<Rightarrow> False)"

text \<open>A health probe: one of the three requests a round of \<open>wait_for_health\<close> tries.\<close>

definition is_probe :: "entry \<Rightarrow> bool" where
  "is_probe e =
     (case e of
        Run c \<Rightarrow>
          (case c of
             CurlHealth port path \<Rightarrow> True
           | CurlInitialize url who \<Rightarrow> who = ''health''
           | _ \<Rightarrow> False)
      | _ \<Rightarrow> False)"

definition is_start :: "entry \<Rightarrow> bool" where
  "is_start e = (case e of Run c \<Rightarrow> (case c of ComposeUp service \<Rightarrow> True | _ \<Rightarrow> False) | _ \<Rightarrow> False)"

definition housekeeping :: "entry \<Rightarrow> bool" where
  "housekeeping e = (\<not> is_measurement e \<and> \<not> is_start e)"

text \<open>The services started, in order.\<close>

definition started :: "entry list \<Rightarrow> string list" where
  "started es =
     List.map_filter
       (\<lambda>e. case e of Run c \<Rightarrow> (case c of ComposeUp service \<Rightarrow> Some service | _ \<Rightarrow> None) | _ \<Rightarrow> None)
       es"

text \<open>The entries a step added to the log of \<open>s\<close>, and: a step only added entries, all with \<open>P\<close>.\<close>

definition added :: "'w sh \<Rightarrow> 'w sh \<Rightarrow> entry list" where
  "added s s' = drop (length (sh_log s)) (sh_log s')"

definition adds :: "(entry \<Rightarrow> bool) \<Rightarrow> 'w sh \<Rightarrow> 'w sh \<Rightarrow> bool" where
  "adds P s s' = (take (length (sh_log s)) (sh_log s') = sh_log s \<and> list_all P (added s s'))"

text \<open>
  \<open>benchmark_server\<close> in two parts: up to the state in which it begins to wait for the target
  (steps 1 of the script), and from the state in which the target is ready (steps 3 to 6).
\<close>

definition before_wait :: "'w runner \<Rightarrow> dirs \<Rightarrow> string \<Rightarrow> 'w sh \<Rightarrow> 'w sh" where
  "before_wait X D n s =
     start_server X D (n @ ''-server'')
       (snd (stop_all_servers X False D (snd (run X (Mkdir (RESULTS_DIR D @ ''/'' @ n)) s))))"

definition after_wait :: "'w runner \<Rightarrow> dirs \<Rightarrow> string \<Rightarrow> string \<Rightarrow> string \<Rightarrow> 'w sh \<Rightarrow> 'w sh" where
  "after_wait X D n container port s4 =
     (let url = ''http://localhost:'' @ port @ ''/mcp'';
          server_results = RESULTS_DIR D @ ''/'' @ n;
          s5 = warmup X url n s4;
          s6 = snd (run X (CollectStats container (server_results @ ''/stats.json''))
                      (say (Info ''Starting Docker stats collector...'') s5));
          s7 = snd (run X (SleepCmd 1) s6);
          s8 = snd (run X (K6Run url n (server_results @ ''/k6.json''))
                      (say (Info ''Running k6 benchmark (50 VUs, 5m)...'') s7));
          s9 = snd (run X KillStats (say (Info ''Stopping stats collector...'') s8));
          s10 = snd (run X WaitStats s9)
      in say (Ok (''Benchmark complete for '' @ n)) s10)"

text \<open>A runner under which the target on port 8084 (rust) answers no probe; all else succeeds.\<close>

definition rust_down :: "nat runner" where
  "rust_down c w =
     (case c of
        CurlHealth port path \<Rightarrow> (port \<noteq> ''8084'', w + 1)
      | CurlInitialize url who \<Rightarrow> (url \<noteq> ''http://localhost:8084/mcp'', w + 1)
      | _ \<Rightarrow> (True, w + 1))"

definition demo_dirs :: dirs where
  "demo_dirs =
     \<lparr>SCRIPT_DIR = ''/bench/benchmark'', PROJECT_DIR = ''/bench'',
      RESULTS_DIR = ''/bench/benchmark/results/20260101_000000''\<rparr>"

definition fresh_shell :: "nat sh" where
  "fresh_shell = \<lparr>sh_world = 0, sh_log = []\<rparr>"


section \<open>Fibonacci: the three implementations agree\<close>

lemma node_fib_loop_fibn:
  "0 \<le> i \<Longrightarrow> i \<le> n \<Longrightarrow>
   node_fib_loop i n (int (fibn (nat i))) (int (fibn (Suc (nat i)))) = int (fibn (nat n))"
proof (induction i n "int (fibn (nat i))" "int (fibn (Suc (nat i)))" rule: node_fib_loop.induct)
  case (1 i n)
  show ?case
  proof (cases "i < n")
    case True
    have s: "nat (i + 1) = Suc (nat i)" using 1(2) by simp
    have "node_fib_loop (i + 1) n (int (fibn (nat (i + 1)))) (int (fibn (Suc (nat (i + 1)))))
          = int (fibn (nat n))"
      using 1(1)[OF True] 1(2) True by (simp add: s)
    then show ?thesis
      using True by (subst node_fib_loop.simps) (simp add: s)
  next
    case False
    then have "i = n" using 1(3) by simp
    then show ?thesis by (subst node_fib_loop.simps) simp
  qed
qed

lemma node_fib_loop_0: "0 \<le> n \<Longrightarrow> node_fib_loop 0 n 0 1 = int (fibn (nat n))"
  using node_fib_loop_fibn [of 0 n] by simp

lemma fibn_mono_Suc: "fibn n \<le> fibn (Suc n)"
  by (induction n rule: fibn.induct) auto

lemma fibn_mono: "m \<le> n \<Longrightarrow> fibn m \<le> fibn n"
  by (induction n) (auto simp: le_Suc_eq intro: order_trans [OF _ fibn_mono_Suc])

lemma fibn_40: "fibn 40 = 102334155"
proof -
  have "node_fib_loop 0 40 0 1 = 102334155"
    by (simp add: node_fib_loop.simps)
  then show ?thesis
    using node_fib_loop_0 [of 40] by simp
qed

lemma fibn_10: "fibn 10 = 55"
  by code_simp

lemma fibn_bound: "x \<le> 40 \<Longrightarrow> int (fibn (nat x)) < 2 ^ 31"
proof -
  assume "x \<le> 40"
  then have "fibn (nat x) \<le> fibn 40" by (intro fibn_mono) simp
  then show ?thesis by (simp add: fibn_40)
qed

lemma wrap64_id: "0 \<le> x \<Longrightarrow> x < 2 ^ 31 \<Longrightarrow> wrap64 x = x"
  by (simp add: wrap64_def)


text \<open>Within the accepted range no addition of the recursive versions wraps around.\<close>

lemma go_fib_fibn: "0 \<le> x \<Longrightarrow> x \<le> 40 \<Longrightarrow> go_fib x = int (fibn (nat x))"
proof (induction x rule: go_fib.induct)
  case (1 x)
  show ?case
  proof (cases "x \<le> 1")
    case True
    then have "x = 0 \<or> x = 1" using 1(3) by auto
    then show ?thesis by (subst go_fib.simps) auto
  next
    case False
    have a: "go_fib (x - 1) = int (fibn (nat (x - 1)))" using 1(1)[OF False] 1(3,4) False by simp
    have b: "go_fib (x - 2) = int (fibn (nat (x - 2)))" using 1(2)[OF False] 1(3,4) False by simp
    have n: "nat x = Suc (Suc (nat (x - 2)))" "nat (x - 1) = Suc (nat (x - 2))" using False by auto
    have "go_fib x = wrap64 (int (fibn (nat x)))"
      using False by (subst go_fib.simps) (simp add: a b n add.commute)
    also have "\<dots> = int (fibn (nat x))" using fibn_bound [OF 1(4)] by (intro wrap64_id) auto
    finally show ?thesis .
  qed
qed


text \<open>
  C10. For every integer \<open>n\<close> with \<open>0 \<le> n \<le> 40\<close> the Go handler (recursive) and the Node.js
  handler (iterative) both answer with the n-th Fibonacci number as their result, hence with the
  same result value; for every integer \<open>n\<close> outside \<open>[0, 40]\<close> both answer with an error
  instead of a result.
\<close>

theorem fibonacci_go_node_agree:
  "(0 \<le> n \<and> n \<le> 40 \<longrightarrow>
      handleFibonacci n = Inr \<lparr>Input = n, Result = int (fibn (nat n)), ServerType = ''go''\<rparr> \<and>
      node_calculate_fibonacci n =
        Inr (JObj [(''input'', JNum (of_int n)),
                   (''result'', JNum (of_int (int (fibn (nat n))))),
                   (''server_type'', JStr ''nodejs'')])) \<and>
   (n < 0 \<or> n > 40 \<longrightarrow>
      handleFibonacci n = Inl ''n deve estar entre 0 e 40'' \<and>
      node_calculate_fibonacci n = Inl ''n deve estar entre 0 e 40'')"
  by (simp add: handleFibonacci_def node_calculate_fibonacci_def go_fib_fibn node_fib_loop_0)

theorem fibonacci_go_node_agree_witness:
  "handleFibonacci 10 = Inr \<lparr>Input = 10, Result = 55, ServerType = ''go''\<rparr> \<and>
   node_calculate_fibonacci 10 =
     Inr (JObj [(''input'', JNum 10), (''result'', JNum 55), (''server_type'', JStr ''nodejs'')]) \<and>
   handleFibonacci 41 = Inl ''n deve estar entre 0 e 40'' \<and>
   node_calculate_fibonacci (- 1) = Inl ''n deve estar entre 0 e 40''"
  using fibonacci_go_node_agree [of 10] fibonacci_go_node_agree [of 41]
    fibonacci_go_node_agree [of "- 1"]
  by (simp add: fibn_10)

section \<open>Response decoding: the code follows the stated policy\<close>

lemma split_nl_nonempty [simp]: "split_nl s \<noteq> []"
  by (induction s) (auto split: list.splits)

lemma split_nl_Cons:
  "split_nl (c # cs) =
     (if c = CHR 0x0A then [] # split_nl cs
      else (c # hd (split_nl cs)) # tl (split_nl cs))"
  by (cases "split_nl cs") auto

lemma split_nl_append:
  "split_nl (x @ y) =
     butlast (split_nl x) @ [last (split_nl x) @ hd (split_nl y)] @ tl (split_nl y)"
proof (induction x)
  case Nil
  show ?case by (cases "split_nl y") auto
next
  case (Cons c x)
  show ?case
  proof (cases "c = CHR 0x0A")
    case True
    then show ?thesis using Cons by simp
  next
    case False
    obtain l ls where s: "split_nl x = l # ls" by (cases "split_nl x") auto
    show ?thesis
    proof (cases ls)
      case Nil
      then show ?thesis using False s Cons by (simp add: split_nl_Cons del: split_nl.simps)
    next
      case (Cons l' ls')
      then show ?thesis using False s Cons.IH by (simp add: split_nl_Cons del: split_nl.simps)
    qed
  qed
qed

lemma trim_ws_prefix:
  assumes "\<forall>c\<in>set w. is_ws c"
  shows "trim (w @ l) = trim l"
proof -
  have "dropWhile is_ws (w @ l) = dropWhile is_ws l"
    using assms by (intro dropWhile_append2) simp
  then show ?thesis by (simp add: trim_def)
qed

lemma trim_all_ws:
  assumes "\<forall>c\<in>set w. is_ws c"
  shows "trim w = []"
  using assms by (auto simp: trim_def dest: set_dropWhileD)

lemma trim_ws_suffix:
  assumes "\<forall>c\<in>set w. is_ws c"
  shows "trim (l @ w) = trim l"
proof (cases "\<forall>c\<in>set l. is_ws c")
  case True
  then have "\<forall>c\<in>set (l @ w). is_ws c" using assms by auto
  then have "trim (l @ w) = []" by (rule trim_all_ws)
  then show ?thesis using True by (simp add: trim_all_ws)
next
  case False
  then obtain c where c: "c \<in> set l" "\<not> is_ws c" by auto
  have "dropWhile is_ws (l @ w) = dropWhile is_ws l @ w"
    using c by (rule dropWhile_append1)
  moreover have "dropWhile is_ws (rev w @ rev (dropWhile is_ws l)) = dropWhile is_ws (rev (dropWhile is_ws l))"
    using assms by (intro dropWhile_append2) simp
  ultimately show ?thesis by (simp add: trim_def)
qed

lemma trim_decomp:
  "\<exists>w1 w2. b = w1 @ trim b @ w2 \<and> (\<forall>c\<in>set w1. is_ws c) \<and> (\<forall>c\<in>set w2. is_ws c)"
proof -
  let ?d = "dropWhile is_ws b"
  let ?w1 = "takeWhile is_ws b"
  let ?w2 = "rev (takeWhile is_ws (rev ?d))"
  have "?d = rev (takeWhile is_ws (rev ?d) @ dropWhile is_ws (rev ?d))"
    by (simp only: takeWhile_dropWhile_id rev_rev_ident)
  then have d: "?d = trim b @ ?w2" by (simp only: rev_append trim_def)
  have "b = ?w1 @ ?d" by simp
  then have "b = ?w1 @ trim b @ ?w2" using d by simp
  moreover have "\<forall>c\<in>set ?w1. is_ws c" by (auto dest: set_takeWhileD)
  moreover have "\<forall>c\<in>set ?w2. is_ws c" by (auto dest: set_takeWhileD)
  ultimately show ?thesis by blast
qed

lemma split_nl_chars: "l \<in> set (split_nl s) \<Longrightarrow> c \<in> set l \<Longrightarrow> c \<in> set s"
proof (induction s arbitrary: l)
  case Nil
  then show ?case by simp
next
  case (Cons a s)
  obtain h t where s: "split_nl s = h # t" by (cases "split_nl s") auto
  show ?case
  proof (cases "a = CHR 0x0A")
    case True
    then show ?thesis using Cons by auto
  next
    case False
    then have "l = a # h \<or> l \<in> set t" using Cons.prems(1) s by simp
    then show ?thesis
    proof
      assume "l = a # h"
      then show ?thesis using Cons.prems(2) Cons.IH [of h] s by auto
    next
      assume "l \<in> set t"
      then show ?thesis using Cons.prems(2) Cons.IH [of l] s by auto
    qed
  qed
qed

lemma data_frame_trim: "trim l = trim l' \<Longrightarrow> data_frame parse l = data_frame parse l'"
  by (simp add: data_frame_def)

lemma data_frame_ws: "\<forall>c\<in>set l. is_ws c \<Longrightarrow> data_frame parse l = None"
  by (simp add: data_frame_def trim_all_ws startsWith_def)

lemma first_frame_append:
  "first_frame parse (xs @ ys) =
     (case first_frame parse xs of Some v \<Rightarrow> Some v | None \<Rightarrow> first_frame parse ys)"
  by (induction xs) (auto split: option.splits)

lemma first_frame_ws: "\<forall>l\<in>set ls. \<forall>c\<in>set l. is_ws c \<Longrightarrow> first_frame parse ls = None"
  by (induction ls) (auto simp: data_frame_ws)

lemma first_frame_snoc:
  "first_frame parse (butlast X @ [last X @ e]) =
     (case first_frame parse (butlast X) of Some v \<Rightarrow> Some v | None \<Rightarrow> data_frame parse (last X @ e))"
  by (simp add: first_frame_append split: option.splits)

lemma ws_lines: "\<forall>c\<in>set w. is_ws c \<Longrightarrow> \<forall>l\<in>set (split_nl w). \<forall>c\<in>set l. is_ws c"
  by (blast dest: split_nl_chars)

lemma first_frame_ws_suffix:
  assumes w: "\<forall>c\<in>set w. is_ws c"
  shows "first_frame parse (split_nl (x @ w)) = first_frame parse (split_nl x)"
proof -
  let ?X = "split_nl x" and ?W = "split_nl w"
  have hdW: "\<forall>c\<in>set (hd ?W). is_ws c" using ws_lines [OF w] by (cases ?W) auto
  have tlW: "\<forall>l\<in>set (tl ?W). \<forall>c\<in>set l. is_ws c" using ws_lines [OF w] by (cases ?W) auto
  have "first_frame parse (split_nl (x @ w))
        = first_frame parse ((butlast ?X @ [last ?X @ hd ?W]) @ tl ?W)"
    by (simp add: split_nl_append)
  also have "\<dots> = first_frame parse (butlast ?X @ [last ?X @ hd ?W])"
    by (subst first_frame_append) (simp add: first_frame_ws [OF tlW] split: option.splits)
  also have "\<dots> = first_frame parse (butlast ?X @ [last ?X])"
    unfolding first_frame_append
    by (simp add: data_frame_trim [OF trim_ws_suffix [OF hdW]] split: option.splits)
  also have "\<dots> = first_frame parse ?X" by simp
  finally show ?thesis .
qed

lemma first_frame_ws_prefix:
  assumes w: "\<forall>c\<in>set w. is_ws c"
  shows "first_frame parse (split_nl (w @ x)) = first_frame parse (split_nl x)"
proof -
  let ?X = "split_nl x" and ?W = "split_nl w"
  have "last ?W \<in> set ?W" by (rule last_in_set) simp
  then have lastW: "\<forall>c\<in>set (last ?W). is_ws c" using ws_lines [OF w] by blast
  have "set (butlast ?W) \<subseteq> set ?W" by (auto dest: in_set_butlastD)
  then have blW: "\<forall>l\<in>set (butlast ?W). \<forall>c\<in>set l. is_ws c" using ws_lines [OF w] by blast
  have "first_frame parse (split_nl (w @ x))
        = first_frame parse (butlast ?W @ ((last ?W @ hd ?X) # tl ?X))"
    by (simp add: split_nl_append)
  also have "\<dots> = first_frame parse ((last ?W @ hd ?X) # tl ?X)"
    by (subst first_frame_append) (simp add: first_frame_ws [OF blW])
  also have "\<dots> = first_frame parse (hd ?X # tl ?X)"
    unfolding first_frame.simps
    by (simp add: data_frame_trim [OF trim_ws_prefix [OF lastW]])
  also have "\<dots> = first_frame parse ?X" by (simp only: hd_Cons_tl [OF split_nl_nonempty])
  finally show ?thesis .
qed

lemma first_frame_trim: "first_frame parse (split_nl (trim b)) = first_frame parse (split_nl b)"
proof -
  obtain w1 w2 where d: "b = w1 @ trim b @ w2" "\<forall>c\<in>set w1. is_ws c" "\<forall>c\<in>set w2. is_ws c"
    using trim_decomp by blast
  have "first_frame parse (split_nl b) = first_frame parse (split_nl (w1 @ (trim b @ w2)))"
    using d(1) by simp
  also have "\<dots> = first_frame parse (split_nl (trim b @ w2))"
    by (rule first_frame_ws_prefix [OF d(2)])
  also have "\<dots> = first_frame parse (split_nl (trim b))"
    by (rule first_frame_ws_suffix [OF d(3)])
  finally show ?thesis by simp
qed

lemma sse_lines_first_frame:
  "sse_lines parse ls = (case first_frame parse ls of Some v \<Rightarrow> v | None \<Rightarrow> JNull)"
  by (induction ls) (auto simp: data_frame_def Let_def startsWith_def split: option.splits)

text \<open>
  C2. For every response body (a string or null) \<open>parseBody\<close> returns what the stated policy
  returns: the direct parse of the trimmed body when that starts with \<open>{\<close> or \<open>[\<close> and
  parses; otherwise the payload of the first line of the body whose trimmed form starts with
  \<open>data:\<close> and whose remainder, trimmed, starts with \<open>{\<close> and parses; otherwise null (also for
  an empty or null body). It is a total function: no input makes it raise.
\<close>

theorem parseBody_follows_policy: "parseBody parse body = parseBody_spec parse body"
proof (cases body)
  case None
  then show ?thesis by (simp add: parseBody_def parseBody_spec_def)
next
  case (Some b)
  show ?thesis
  proof (cases "trim b = []")
    case True
    have "\<forall>c\<in>set b. is_ws c"
      using trim_decomp [of b] True by auto
    then have "first_frame parse (split_nl b) = None"
      by (intro first_frame_ws ws_lines)
    then show ?thesis using True Some
      by (simp add: parseBody_def parseBody_spec_def direct_json_def startsWith_def)
  next
    case False
    then have "b \<noteq> []" by (auto simp: trim_def)
    then show ?thesis using False Some
      by (simp add: parseBody_def parseBody_spec_def direct_json_def Let_def
          sse_lines_first_frame first_frame_trim split: option.splits)
  qed
qed

theorem parseBody_follows_policy_witness:
  \<open>parseBody (parse_table [(''{"a":1}'', JObj [(''a'', JNum 1)])])
     (Some (''event: message'' @ [CHR 0x0D, CHR 0x0A] @ ''data: {"a":1}'' @ [CHR 0x0D, CHR 0x0A, CHR 0x0A]))
     = JObj [(''a'', JNum 1)] \<and>
   parseBody (parse_table [(''{"a":1}'', JObj [(''a'', JNum 1)])]) (Some ('' {"a":1}'' @ [CHR 0x0A]))
     = JObj [(''a'', JNum 1)] \<and>
   parseBody (parse_table [(''{"a":1}'', JObj [(''a'', JNum 1)])]) (Some ''{"a":'') = JNull \<and>
   parseBody (parse_table [(''{"a":1}'', JObj [(''a'', JNum 1)])]) (Some []) = JNull \<and>
   parseBody (parse_table [(''{"a":1}'', JObj [(''a'', JNum 1)])]) None = JNull\<close>
  unfolding parseBody_follows_policy
  by (simp add: parseBody_spec_def direct_json_def data_frame_def trim_def is_ws_def
      startsWith_def parse_table_def)


section \<open>The session driver: what one session sends and records\<close>

lemma http_send_effect:
  "trace (snd (http_send E req st)) = trace st @ [Request req]"
  "met (snd (http_send E req st)) = met st"
  by (auto simp: http_send_def split: prod.splits)

lemma mcpPost_effect:
  "trace (snd (mcpPost E p sid st)) =
     trace st @ [Request (post_request E p (with_session BASE_HEADERS sid) ''15s'')]"
  "met (snd (mcpPost E p sid st)) = (met st)\<lparr>mcpRequests := mcpRequests (met st) + 1\<rparr>"
  by (auto simp: mcpPost_def http_send_def Let_def split: prod.splits)

lemma send_initialized_effect:
  "trace (send_initialized E sid st) =
     trace st @ [Request (post_request E initialized_payload (with_session BASE_HEADERS sid) ''5s'')]"
  "met (send_initialized E sid st) = met st"
  by (simp_all add: send_initialized_def http_send_effect)

lemma close_session_effect:
  "trace (close_session E sid st) =
     trace st @ (case sid of None \<Rightarrow> [] | Some s \<Rightarrow> if s \<noteq> [] then [Request (del_request E s)] else [])"
  "met (close_session E sid st) = met st"
  by (auto simp: close_session_def http_send_effect split: option.splits)

lemma track_errors_effect:
  "trace (track_errors r st) = trace st"
  "met (track_errors r st) =
     (met st)\<lparr>mcpErrors := mcpErrors (met st) + (if isError r then 1 else 0),
             mcpErrorRate := mcpErrorRate (met st) @ [isError r]\<rparr>"
  by (auto simp: track_errors_def)

lemma mcpSession_cases:
  obtains ires iresult sid st1 cres cresult sid' st3 where
    "mcpPost E initialize_payload None st = ((ires, iresult, sid), st1)"
    "mcpPost E (tools_call_payload n a) sid (send_initialized E sid st1) = ((cres, cresult, sid'), st3)"
    "mcpSession E n a st =
       (\<lparr>initRes = ires, callRes = cres, callResult = cresult,
         totalDuration = now E (world st3) - now E (world st), sessionId = sid\<rparr>,
        track_errors cresult (close_session E sid st3))"
proof -
  obtain ires iresult sid st1 where
    p1: "mcpPost E initialize_payload None st = ((ires, iresult, sid), st1)"
    by (metis prod.exhaust)
  obtain cres cresult sid' st3 where
    p2: "mcpPost E (tools_call_payload n a) sid (send_initialized E sid st1) = ((cres, cresult, sid'), st3)"
    by (metis prod.exhaust)
  show thesis
    by (rule that [OF p1 p2]) (simp add: mcpSession_def Let_def p1 p2)
qed

lemma mcpSession_trace:
  "trace (snd (mcpSession E n a st)) =
     trace st @ session_events E (tools_call_payload n a) (sessionId (fst (mcpSession E n a st)))"
proof -
  obtain ires iresult sid st1 cres cresult sid' st3 where
    p1: "mcpPost E initialize_payload None st = ((ires, iresult, sid), st1)" and
    p2: "mcpPost E (tools_call_payload n a) sid (send_initialized E sid st1) = ((cres, cresult, sid'), st3)" and
    s: "mcpSession E n a st =
       (\<lparr>initRes = ires, callRes = cres, callResult = cresult,
         totalDuration = now E (world st3) - now E (world st), sessionId = sid\<rparr>,
        track_errors cresult (close_session E sid st3))"
    by (rule mcpSession_cases)
  have t1: "trace st1 = trace st @ [Request (post_request E initialize_payload BASE_HEADERS ''15s'')]"
    using mcpPost_effect(1) [of E initialize_payload None st] by (simp add: p1 with_session_def)
  have t3: "trace st3 = trace (send_initialized E sid st1)
      @ [Request (post_request E (tools_call_payload n a) (with_session BASE_HEADERS sid) ''15s'')]"
    using mcpPost_effect(1) [of E "tools_call_payload n a" sid "send_initialized E sid st1"]
    by (simp add: p2)
  show ?thesis
    by (simp add: s track_errors_effect close_session_effect t3 send_initialized_effect t1
        session_events_def)
qed

lemma mcpSession_metrics:
  "met (snd (mcpSession E n a st)) =
     (met st)\<lparr>mcpRequests := mcpRequests (met st) + 2,
              mcpErrors := mcpErrors (met st) + (if isError (callResult (fst (mcpSession E n a st))) then 1 else 0),
              mcpErrorRate := mcpErrorRate (met st) @ [isError (callResult (fst (mcpSession E n a st)))]\<rparr>"
proof -
  obtain ires iresult sid st1 cres cresult sid' st3 where
    p1: "mcpPost E initialize_payload None st = ((ires, iresult, sid), st1)" and
    p2: "mcpPost E (tools_call_payload n a) sid (send_initialized E sid st1) = ((cres, cresult, sid'), st3)" and
    s: "mcpSession E n a st =
       (\<lparr>initRes = ires, callRes = cres, callResult = cresult,
         totalDuration = now E (world st3) - now E (world st), sessionId = sid\<rparr>,
        track_errors cresult (close_session E sid st3))"
    by (rule mcpSession_cases)
  have m1: "met st1 = (met st)\<lparr>mcpRequests := mcpRequests (met st) + 1\<rparr>"
    using mcpPost_effect(2) [of E initialize_payload None st] by (simp add: p1)
  have m3: "met st3 = (met st1)\<lparr>mcpRequests := mcpRequests (met st1) + 1\<rparr>"
    using mcpPost_effect(2) [of E "tools_call_payload n a" sid "send_initialized E sid st1"]
    by (simp add: p2 send_initialized_effect)
  show ?thesis
    by (simp add: s track_errors_effect close_session_effect m3 m1)
qed

lemma mcpPost_result:
  "fst (mcpPost E p sid st) =
     (let res = fst (serve E (post_request E p (with_session BASE_HEADERS sid) ''15s'') (world st))
      in (res, parseBody (JSON_parse E) (res_body res),
          or_session (map_of (res_headers res) ''Mcp-Session-Id'') sid))"
  by (auto simp: mcpPost_def http_send_def Let_def split: prod.splits)

lemma mcpSession_callResult:
  "callResult (fst (mcpSession E n a st)) =
     parseBody (JSON_parse E) (res_body (callRes (fst (mcpSession E n a st))))"
proof -
  obtain ires iresult sid st1 cres cresult sid' st3 where
    p2: "mcpPost E (tools_call_payload n a) sid (send_initialized E sid st1) = ((cres, cresult, sid'), st3)" and
    s: "mcpSession E n a st =
       (\<lparr>initRes = ires, callRes = cres, callResult = cresult,
         totalDuration = now E (world st3) - now E (world st), sessionId = sid\<rparr>,
        track_errors cresult (close_session E sid st3))"
    by (rule mcpSession_cases)
  have "fst (mcpPost E (tools_call_payload n a) sid (send_initialized E sid st1)) = (cres, cresult, sid')"
    by (simp add: p2)
  then have "cresult = parseBody (JSON_parse E) (res_body cres)"
    by (auto simp: mcpPost_result Let_def)
  then show ?thesis by (simp add: s)
qed

lemma add_trend_effect:
  "trace (add_trend t v st) = trace st"
  "world (add_trend t v st) = world st"
  "mcpRequests (met (add_trend t v st)) = mcpRequests (met st)"
  "mcpErrors (met (add_trend t v st)) = mcpErrors (met st)"
  "mcpErrorRate (met (add_trend t v st)) = mcpErrorRate (met st)"
  "checks (met (add_trend t v st)) = checks (met st)"
  by (simp_all add: add_trend_def)

lemma add_check_effect:
  "trace (add_check c b st) = trace st"
  "world (add_check c b st) = world st"
  "mcpRequests (met (add_check c b st)) = mcpRequests (met st)"
  "mcpErrors (met (add_check c b st)) = mcpErrors (met st)"
  "mcpErrorRate (met (add_check c b st)) = mcpErrorRate (met st)"
  "trends (met (add_check c b st)) = trends (met st)"
  by (simp_all add: add_check_def)

lemma run_tool_trace:
  "\<exists>sid. trace (run_tool E t st) = trace st @ session_events E (tools_call_payload (name t) (args t)) sid"
proof -
  obtain r st1 where s: "mcpSession E (name t) (args t) st = (r, st1)" by (metis prod.exhaust)
  have "trace st1 = trace st @ session_events E (tools_call_payload (name t) (args t)) (sessionId r)"
    using mcpSession_trace [of E "name t" "args t" st] by (simp add: s)
  then show ?thesis
    by (auto simp: run_tool_def s add_trend_effect add_check_effect)
qed

lemma run_tool_requests:
  "mcpRequests (met (run_tool E t st)) = mcpRequests (met st) + 2"
proof -
  obtain r st1 where s: "mcpSession E (name t) (args t) st = (r, st1)" by (metis prod.exhaust)
  have "mcpRequests (met st1) = mcpRequests (met st) + 2"
    using mcpSession_metrics [of E "name t" "args t" st] by (simp add: s)
  then show ?thesis
    by (simp add: run_tool_def s add_trend_effect add_check_effect)
qed

lemma tools_list_session_trace:
  "\<exists>sid. trace (tools_list_session E st) = trace st @ session_events E tools_list_payload sid"
proof -
  obtain ires iresult sid st1 where
    p1: "mcpPost E initialize_payload None st = ((ires, iresult, sid), st1)"
    by (metis prod.exhaust)
  obtain lres lresult sid' st3 where
    p2: "mcpPost E tools_list_payload sid (send_initialized E sid st1) = ((lres, lresult, sid'), st3)"
    by (metis prod.exhaust)
  have t1: "trace st1 = trace st @ [Request (post_request E initialize_payload BASE_HEADERS ''15s'')]"
    using mcpPost_effect(1) [of E initialize_payload None st] by (simp add: p1 with_session_def)
  have t3: "trace st3 = trace (send_initialized E sid st1)
      @ [Request (post_request E tools_list_payload (with_session BASE_HEADERS sid) ''15s'')]"
    using mcpPost_effect(1) [of E tools_list_payload sid "send_initialized E sid st1"]
    by (simp add: p2)
  have "trace (tools_list_session E st) = trace st @ session_events E tools_list_payload sid"
    by (simp add: tools_list_session_def p1 p2 Let_def close_session_effect add_check_effect
        add_trend_effect t3 send_initialized_effect t1 session_events_def)
  then show ?thesis ..
qed

lemma tools_list_session_requests:
  "mcpRequests (met (tools_list_session E st)) = mcpRequests (met st) + 2"
proof -
  obtain ires iresult sid st1 where
    p1: "mcpPost E initialize_payload None st = ((ires, iresult, sid), st1)"
    by (metis prod.exhaust)
  obtain lres lresult sid' st3 where
    p2: "mcpPost E tools_list_payload sid (send_initialized E sid st1) = ((lres, lresult, sid'), st3)"
    by (metis prod.exhaust)
  have m1: "met st1 = (met st)\<lparr>mcpRequests := mcpRequests (met st) + 1\<rparr>"
    using mcpPost_effect(2) [of E initialize_payload None st] by (simp add: p1)
  have m3: "met st3 = (met st1)\<lparr>mcpRequests := mcpRequests (met st1) + 1\<rparr>"
    using mcpPost_effect(2) [of E tools_list_payload sid "send_initialized E sid st1"]
    by (simp add: p2 send_initialized_effect)
  show ?thesis
    by (simp add: tools_list_session_def p1 p2 Let_def close_session_effect add_check_effect
        add_trend_effect m3 m1)
qed

text \<open>the steps counted in a session's events\<close>

lemma steps_append:
  "handshake_invoke_steps (xs @ ys) = handshake_invoke_steps xs + handshake_invoke_steps ys"
  by (simp add: handshake_invoke_steps_def)

lemma rpc_method_post:
  "rpc_method (Request (post_request E p hs t)) = (case jget p ''method'' of JStr s \<Rightarrow> Some s | _ \<Rightarrow> None)"
  by (simp add: rpc_method_def post_request_def)

lemma rpc_method_del: "rpc_method (Request (del_request E s)) = None"
  by (simp add: rpc_method_def del_request_def)

lemma steps_session_call:
  "handshake_invoke_steps (session_events E (tools_call_payload n a) sid) = 2"
  by (simp add: handshake_invoke_steps_def session_events_def is_handshake_def is_invoke_def
      rpc_method_post rpc_method_del initialize_payload_def initialized_payload_def
      tools_call_payload_def split: option.splits)

lemma steps_session_list:
  "handshake_invoke_steps (session_events E tools_list_payload sid) = 2"
  by (simp add: handshake_invoke_steps_def session_events_def is_handshake_def is_invoke_def
      rpc_method_post rpc_method_del initialize_payload_def initialized_payload_def
      tools_list_payload_def split: option.splits)

text \<open>Changing only how the target answers DELETE requests.\<close>

lemma mcpPost_env:
  assumes "\<forall>req w. req_method req \<noteq> DELETE \<longrightarrow> serve E' req w = serve E req w"
    and "JSON_parse E' = JSON_parse E" and "SERVER_URL E' = SERVER_URL E"
  shows "mcpPost E' p sid st = mcpPost E p sid st"
proof -
  have "post_request E' p (with_session BASE_HEADERS sid) ''15s''
      = post_request E p (with_session BASE_HEADERS sid) ''15s''"
    using assms(3) by (simp add: post_request_def)
  moreover have "req_method (post_request E p (with_session BASE_HEADERS sid) ''15s'') \<noteq> DELETE"
    by (simp add: post_request_def)
  ultimately show ?thesis
    using assms(1,2) by (simp add: mcpPost_def http_send_def)
qed

lemma send_initialized_env:
  assumes "\<forall>req w. req_method req \<noteq> DELETE \<longrightarrow> serve E' req w = serve E req w"
    and "SERVER_URL E' = SERVER_URL E"
  shows "send_initialized E' sid st = send_initialized E sid st"
proof -
  have "post_request E' initialized_payload (with_session BASE_HEADERS sid) ''5s''
      = post_request E initialized_payload (with_session BASE_HEADERS sid) ''5s''"
    using assms(2) by (simp add: post_request_def)
  moreover have "req_method (post_request E initialized_payload (with_session BASE_HEADERS sid) ''5s'') \<noteq> DELETE"
    by (simp add: post_request_def)
  ultimately show ?thesis
    using assms(1) by (simp add: send_initialized_def http_send_def)
qed

lemma close_session_env:
  assumes "SERVER_URL E' = SERVER_URL E"
  shows "trace (close_session E' sid st) = trace (close_session E sid st)"
    and "met (close_session E' sid st) = met (close_session E sid st)"
  using assms by (simp_all add: close_session_effect del_request_def split: option.splits)

lemma teardown_in_session:
  "list_ex is_teardown (session_events E (tools_call_payload n a) sid) = sid_truthy sid"
  by (simp add: session_events_def is_teardown_def post_request_def del_request_def sid_truthy_def
      split: option.splits)

lemma mcpSession_env:
  assumes "\<forall>req w. req_method req \<noteq> DELETE \<longrightarrow> serve E' req w = serve E req w"
    and "now E' = now E" and "JSON_parse E' = JSON_parse E" and "SERVER_URL E' = SERVER_URL E"
  shows "fst (mcpSession E' n a st) = fst (mcpSession E n a st)"
    and "met (snd (mcpSession E' n a st)) = met (snd (mcpSession E n a st))"
    and "trace (snd (mcpSession E' n a st)) = trace (snd (mcpSession E n a st))"
proof -
  obtain ires iresult sid st1 cres cresult sid' st3 where
    p1: "mcpPost E initialize_payload None st = ((ires, iresult, sid), st1)" and
    p2: "mcpPost E (tools_call_payload n a) sid (send_initialized E sid st1) = ((cres, cresult, sid'), st3)" and
    s: "mcpSession E n a st =
       (\<lparr>initRes = ires, callRes = cres, callResult = cresult,
         totalDuration = now E (world st3) - now E (world st), sessionId = sid\<rparr>,
        track_errors cresult (close_session E sid st3))"
    by (rule mcpSession_cases)
  have p1': "mcpPost E' initialize_payload None st = ((ires, iresult, sid), st1)"
    using mcpPost_env [OF assms(1,3,4)] p1 by simp
  have p2': "mcpPost E' (tools_call_payload n a) sid (send_initialized E' sid st1) = ((cres, cresult, sid'), st3)"
    using mcpPost_env [OF assms(1,3,4)] send_initialized_env [OF assms(1,4)] p2 by simp
  have s': "mcpSession E' n a st =
       (\<lparr>initRes = ires, callRes = cres, callResult = cresult,
         totalDuration = now E (world st3) - now E (world st), sessionId = sid\<rparr>,
        track_errors cresult (close_session E' sid st3))"
    by (simp add: mcpSession_def Let_def p1' p2' assms(2))
  show "fst (mcpSession E' n a st) = fst (mcpSession E n a st)" by (simp add: s s')
  show "met (snd (mcpSession E' n a st)) = met (snd (mcpSession E n a st))"
    by (simp add: s s' track_errors_effect close_session_env [OF assms(4)])
  show "trace (snd (mcpSession E' n a st)) = trace (snd (mcpSession E n a st))"
    by (simp add: s s' track_errors_effect close_session_env [OF assms(4)])
qed

lemma run_tool_met:
  "met (run_tool E t st) =
     met (add_check (checkName t) (check t (JSON_parse E) (callResult (fst (mcpSession E (name t) (args t) st))))
            (add_trend sessionDuration (of_int (totalDuration (fst (mcpSession E (name t) (args t) st))))
              (add_trend (metric t) (timings_duration (callRes (fst (mcpSession E (name t) (args t) st))))
                (add_trend initDuration (timings_duration (initRes (fst (mcpSession E (name t) (args t) st))))
                   (snd (mcpSession E (name t) (args t) st))))))"
  by (simp add: run_tool_def split: prod.splits)

lemma run_tool_env:
  assumes "\<forall>req w. req_method req \<noteq> DELETE \<longrightarrow> serve E' req w = serve E req w"
    and "now E' = now E" and "JSON_parse E' = JSON_parse E" and "SERVER_URL E' = SERVER_URL E"
  shows "met (run_tool E' t st) = met (run_tool E t st)"
  unfolding run_tool_met
  by (simp add: add_check_def add_trend_def mcpSession_env [OF assms] assms(3))

lemma run_tool_rate:
  "mcpErrorRate (met (run_tool E t st)) = mcpErrorRate (met (snd (mcpSession E (name t) (args t) st)))"
  "mcpErrors (met (run_tool E t st)) = mcpErrors (met (snd (mcpSession E (name t) (args t) st)))"
  "checks (met (run_tool E t st)) =
     checks (met (snd (mcpSession E (name t) (args t) st)))
       @ [(checkName t, check t (JSON_parse E) (callResult (fst (mcpSession E (name t) (args t) st))))]"
  by (simp_all add: run_tool_met add_check_def add_trend_def)

lemma wrong_fib_session:
  "fst (mcpSession wrong_fib_env ''calculate_fibonacci'' (JObj [(''n'', JNum 10)]) (initial_vu 0)) =
     \<lparr>initRes = \<lparr>res_headers = [(''Mcp-Session-Id'', ''s1'')], res_body = Some (fib_body ''54''),
                  timings_duration = 1\<rparr>,
       callRes = \<lparr>res_headers = [(''Mcp-Session-Id'', ''s1'')], res_body = Some (fib_body ''54''),
                  timings_duration = 1\<rparr>,
       callResult = fib_payload ''54'', totalDuration = 9, sessionId = Some ''s1''\<rparr>"
  by (simp add: mcpSession_def mcpPost_def http_send_def wrong_fib_env_def stub_env_def stub_serve_def
      Let_def initial_vu_def post_request_def send_initialized_def or_session_def
      parseBody_def parse_table_def fib_body_def fib_text_def escaped_def trim_def is_ws_def startsWith_def)

section \<open>One loop iteration of a virtual user\<close>

lemma sleep_effect:
  "trace (sleep d st) = trace st @ [Sleep d]"
  "met (sleep d st) = met st"
  by (simp_all add: sleep_def)

lemma run_tools_TOOLS:
  "run_tools E TOOLS st =
     run_tool E (TOOLS ! 3) (run_tool E (TOOLS ! 2) (run_tool E (TOOLS ! 1) (run_tool E (TOOLS ! 0) st)))"
  by (simp add: TOOLS_def)

lemma TOOLS_names:
  "name (TOOLS ! 0) = ''calculate_fibonacci''"
  "name (TOOLS ! 1) = ''fetch_external_data''"
  "name (TOOLS ! 2) = ''process_json_data''"
  "name (TOOLS ! 3) = ''simulate_database_query''"
  by (simp_all add: TOOLS_def)

lemma default_fn_trace:
  "\<exists>s1 s2 s3 s4 s5.
     trace (default_fn E st) =
       trace st
       @ session_events E (tools_call_payload ''calculate_fibonacci'' (args (TOOLS ! 0))) s1
       @ session_events E (tools_call_payload ''fetch_external_data'' (args (TOOLS ! 1))) s2
       @ session_events E (tools_call_payload ''process_json_data'' (args (TOOLS ! 2))) s3
       @ session_events E (tools_call_payload ''simulate_database_query'' (args (TOOLS ! 3))) s4
       @ session_events E tools_list_payload s5
       @ [Sleep (1 / 10)]"
proof -
  let ?a = "run_tool E (TOOLS ! 0) st"
  let ?b = "run_tool E (TOOLS ! 1) ?a"
  let ?c = "run_tool E (TOOLS ! 2) ?b"
  let ?d = "run_tool E (TOOLS ! 3) ?c"
  obtain s1 where a: "trace ?a = trace st
      @ session_events E (tools_call_payload ''calculate_fibonacci'' (args (TOOLS ! 0))) s1"
    using run_tool_trace [of E "TOOLS ! 0" st] unfolding TOOLS_names by blast
  obtain s2 where b: "trace ?b = trace ?a
      @ session_events E (tools_call_payload ''fetch_external_data'' (args (TOOLS ! 1))) s2"
    using run_tool_trace [of E "TOOLS ! 1" ?a] unfolding TOOLS_names by blast
  obtain s3 where c: "trace ?c = trace ?b
      @ session_events E (tools_call_payload ''process_json_data'' (args (TOOLS ! 2))) s3"
    using run_tool_trace [of E "TOOLS ! 2" ?b] unfolding TOOLS_names by blast
  obtain s4 where d: "trace ?d = trace ?c
      @ session_events E (tools_call_payload ''simulate_database_query'' (args (TOOLS ! 3))) s4"
    using run_tool_trace [of E "TOOLS ! 3" ?c] unfolding TOOLS_names by blast
  obtain s5 where e: "trace (tools_list_session E ?d) = trace ?d
      @ session_events E tools_list_payload s5"
    using tools_list_session_trace [of E ?d] by auto
  have "trace (default_fn E st) = trace (tools_list_session E ?d) @ [Sleep (1 / 10)]"
    by (simp only: default_fn_def run_tools_TOOLS sleep_effect)
  then have "trace (default_fn E st) =
       trace st
       @ session_events E (tools_call_payload ''calculate_fibonacci'' (args (TOOLS ! 0))) s1
       @ session_events E (tools_call_payload ''fetch_external_data'' (args (TOOLS ! 1))) s2
       @ session_events E (tools_call_payload ''process_json_data'' (args (TOOLS ! 2))) s3
       @ session_events E (tools_call_payload ''simulate_database_query'' (args (TOOLS ! 3))) s4
       @ session_events E tools_list_payload s5
       @ [Sleep (1 / 10)]"
    by (simp only: a b c d e append_assoc)
  then show ?thesis by blast
qed

lemma default_fn_requests: "mcpRequests (met (default_fn E st)) = mcpRequests (met st) + 10"
  by (simp only: default_fn_def run_tools_TOOLS sleep_effect tools_list_session_requests
      run_tool_requests)

lemma iterations_Suc_end: "iterations E (Suc k) st = default_fn E (iterations E k st)"
  by (induction k arbitrary: st) simp_all

lemma acks_session:
  "length (filter is_acknowledge (session_events E (tools_call_payload n a) sid)) = 1"
  "length (filter is_acknowledge (session_events E tools_list_payload sid)) = 1"
  by (simp_all add: session_events_def is_acknowledge_def
      rpc_method_post rpc_method_del initialize_payload_def initialized_payload_def
      tools_call_payload_def tools_list_payload_def split: option.splits)

lemma rpc_method_sleep: "rpc_method (Sleep d) = None"
  by (simp add: rpc_method_def)

lemma default_fn_steps:
  "handshake_invoke_steps (trace (default_fn E st)) = handshake_invoke_steps (trace st) + 10"
proof -
  obtain s1 s2 s3 s4 s5 where
    "trace (default_fn E st) =
       trace st
       @ session_events E (tools_call_payload ''calculate_fibonacci'' (args (TOOLS ! 0))) s1
       @ session_events E (tools_call_payload ''fetch_external_data'' (args (TOOLS ! 1))) s2
       @ session_events E (tools_call_payload ''process_json_data'' (args (TOOLS ! 2))) s3
       @ session_events E (tools_call_payload ''simulate_database_query'' (args (TOOLS ! 3))) s4
       @ session_events E tools_list_payload s5
       @ [Sleep (1 / 10)]"
    using default_fn_trace [of E st] by blast
  moreover have "handshake_invoke_steps [Sleep (1 / 10)] = 0"
    by (simp add: handshake_invoke_steps_def is_handshake_def is_invoke_def rpc_method_sleep)
  ultimately show ?thesis
    by (simp add: steps_append steps_session_call steps_session_list)
qed

lemma default_fn_acks:
  "length (filter is_acknowledge (trace (default_fn E st))) =
     length (filter is_acknowledge (trace st)) + 5"
proof -
  obtain s1 s2 s3 s4 s5 where
    "trace (default_fn E st) =
       trace st
       @ session_events E (tools_call_payload ''calculate_fibonacci'' (args (TOOLS ! 0))) s1
       @ session_events E (tools_call_payload ''fetch_external_data'' (args (TOOLS ! 1))) s2
       @ session_events E (tools_call_payload ''process_json_data'' (args (TOOLS ! 2))) s3
       @ session_events E (tools_call_payload ''simulate_database_query'' (args (TOOLS ! 3))) s4
       @ session_events E tools_list_payload s5
       @ [Sleep (1 / 10)]"
    using default_fn_trace [of E st] by blast
  moreover have "filter is_acknowledge [Sleep (1 / 10)] = []"
    by (simp add: is_acknowledge_def rpc_method_sleep)
  ultimately show ?thesis
    by (simp add: acks_session)
qed

lemma iterations_counts:
  "mcpRequests (met (iterations E k st)) = mcpRequests (met st) + 10 * k \<and>
   handshake_invoke_steps (trace (iterations E k st)) = handshake_invoke_steps (trace st) + 10 * k \<and>
   length (filter is_acknowledge (trace (iterations E k st))) =
     length (filter is_acknowledge (trace st)) + 5 * k"
proof (induction k)
  case 0
  show ?case by simp
next
  case (Suc k)
  show ?case
    using Suc by (simp add: iterations_Suc_end default_fn_requests default_fn_steps default_fn_acks
        del: iterations.simps)
qed

section \<open>Properties of a run of the k6 script\<close>

text \<open>
  C3. The counter \<open>mcp_requests\<close> grows by exactly two in every session, as does the number of
  handshake (initialize) and invoke (tools/call, tools/list) requests sent. After any number
  \<open>k\<close> of loop iterations of a virtual user, that is \<open>5 * k\<close> completed sessions, the counter
  equals the number of handshake and invoke requests sent, \<open>10 * k\<close>, although the \<open>5 * k\<close>
  acknowledge notifications (and the teardown requests) were sent as well.
\<close>

theorem mcp_requests_counts_handshake_and_invoke:
  "mcpRequests (met (snd (mcpSession E n a st))) = mcpRequests (met st) + 2 \<and>
   handshake_invoke_steps (trace (snd (mcpSession E n a st))) = handshake_invoke_steps (trace st) + 2 \<and>
   mcpRequests (met (iterations E k (initial_vu w))) =
     handshake_invoke_steps (trace (iterations E k (initial_vu w))) \<and>
   handshake_invoke_steps (trace (iterations E k (initial_vu w))) = 10 * k \<and>
   length (filter is_acknowledge (trace (iterations E k (initial_vu w)))) = 5 * k"
proof -
  have a: "mcpRequests (met (snd (mcpSession E n a st))) = mcpRequests (met st) + 2"
    by (simp add: mcpSession_metrics)
  have b: "handshake_invoke_steps (trace (snd (mcpSession E n a st))) =
      handshake_invoke_steps (trace st) + 2"
    by (simp add: mcpSession_trace steps_append steps_session_call)
  have i: "mcpRequests (met (initial_vu w)) = 0" "handshake_invoke_steps (trace (initial_vu w)) = 0"
    "length (filter is_acknowledge (trace (initial_vu w))) = 0"
    by (simp_all add: initial_vu_def no_metrics_def handshake_invoke_steps_def)
  show ?thesis
    using a b iterations_counts [of E k "initial_vu w"] by (simp add: i)
qed


lemma stub_session_eval:
  "map rpc_method (trace (snd (mcpSession (stub_env (Some ''s1'') None failed_response []) ''x'' JNull (initial_vu 0))))
    = [Some ''initialize'', Some ''notifications/initialized'', Some ''tools/call'', None]"
  by (simp add: mcpSession_def mcpPost_def http_send_def stub_env_def stub_serve_def Let_def initial_vu_def
     post_request_def del_request_def send_initialized_def close_session_def track_errors_def
     or_session_def rpc_method_def initialize_payload_def initialized_payload_def tools_call_payload_def)

theorem mcp_requests_counts_handshake_and_invoke_witness:
  "mcpRequests (met (snd (mcpSession (stub_env (Some ''s1'') None failed_response []) ''x'' JNull (initial_vu 0)))) = 2 \<and>
   map rpc_method (trace (snd (mcpSession (stub_env (Some ''s1'') None failed_response []) ''x'' JNull (initial_vu 0))))
    = [Some ''initialize'', Some ''notifications/initialized'', Some ''tools/call'', None] \<and>
   mcpRequests (met (iterations (stub_env (Some ''s1'') None failed_response []) 3 (initial_vu 0))) = 30 \<and>
   length (filter is_acknowledge (trace (iterations (stub_env (Some ''s1'') None failed_response []) 3 (initial_vu 0)))) = 15"
  using mcp_requests_counts_handshake_and_invoke
    [of "stub_env (Some ''s1'') None failed_response []" "''x''" JNull "initial_vu 0" 3 0]
    stub_session_eval
  by (simp add: initial_vu_def no_metrics_def)

text \<open>
  C6. Every loop iteration of a virtual user sends, in this order, one full session for each of
  calculate\_fibonacci, fetch\_external\_data, process\_json\_data and simulate\_database\_query
  (handshake, acknowledge, tools/call, and the teardown when a token was captured), then one
  full session whose invoke step is tools/list, and ends with the pause of 0.1 seconds.
\<close>

theorem default_fn_fixed_order:
  "\<exists>s1 s2 s3 s4 s5.
     trace (iterations E (Suc k) st) =
       trace (iterations E k st)
       @ session_events E (tools_call_payload ''calculate_fibonacci'' (args (TOOLS ! 0))) s1
       @ session_events E (tools_call_payload ''fetch_external_data'' (args (TOOLS ! 1))) s2
       @ session_events E (tools_call_payload ''process_json_data'' (args (TOOLS ! 2))) s3
       @ session_events E (tools_call_payload ''simulate_database_query'' (args (TOOLS ! 3))) s4
       @ session_events E tools_list_payload s5
       @ [Sleep (1 / 10)]"
  unfolding iterations_Suc_end by (rule default_fn_trace)

lemma invoked_session_call:
  "List.map_filter invoked_operation (session_events E (tools_call_payload n a) sid) = [n]"
  by (simp add: session_events_def List.map_filter_def invoked_operation_def post_request_def
      del_request_def initialize_payload_def initialized_payload_def tools_call_payload_def
      split: option.splits)

lemma invoked_session_list:
  "List.map_filter invoked_operation (session_events E tools_list_payload sid) = [''tools/list'']"
  by (simp add: session_events_def List.map_filter_def invoked_operation_def post_request_def
      del_request_def initialize_payload_def initialized_payload_def tools_list_payload_def
      split: option.splits)

lemma map_filter_append: "List.map_filter f (xs @ ys) = List.map_filter f xs @ List.map_filter f ys"
  by (simp add: List.map_filter_def)

theorem default_fn_fixed_order_witness:
  "List.map_filter invoked_operation
     (trace (iterations (stub_env (Some ''s1'') None failed_response []) (Suc 0) (initial_vu 0))) =
     [''calculate_fibonacci'', ''fetch_external_data'', ''process_json_data'',
      ''simulate_database_query'', ''tools/list''] \<and>
   last (trace (iterations (stub_env (Some ''s1'') None failed_response []) (Suc 0) (initial_vu 0))) =
     Sleep (1 / 10)"
proof -
  let ?E = "stub_env (Some ''s1'') None failed_response []"
  obtain s1 s2 s3 s4 s5 where t:
    "trace (iterations ?E (Suc 0) (initial_vu 0)) =
       trace (iterations ?E 0 (initial_vu 0))
       @ session_events ?E (tools_call_payload ''calculate_fibonacci'' (args (TOOLS ! 0))) s1
       @ session_events ?E (tools_call_payload ''fetch_external_data'' (args (TOOLS ! 1))) s2
       @ session_events ?E (tools_call_payload ''process_json_data'' (args (TOOLS ! 2))) s3
       @ session_events ?E (tools_call_payload ''simulate_database_query'' (args (TOOLS ! 3))) s4
       @ session_events ?E tools_list_payload s5
       @ [Sleep (1 / 10)]"
    using default_fn_fixed_order [of ?E 0 "initial_vu 0"] by blast
  have s: "List.map_filter invoked_operation [Sleep (1 / 10)] = []"
    by (simp add: List.map_filter_def invoked_operation_def)
  have i: "trace (iterations ?E 0 (initial_vu 0)) = []" by (simp add: initial_vu_def)
  show ?thesis
    unfolding t i
    by (simp only: map_filter_append invoked_session_call invoked_session_list s last_appendR
        append_Nil append_Nil2 append_Cons) simp
qed

lemma fib_check_54: "fib_check (JSON_parse wrong_fib_env) (fib_payload ''54'') = False"
  by (simp add: fib_check_def has_content_def fib_try_def fib_payload_def getp_def get0_def nullish_def
      wrong_fib_env_def stub_env_def parse_table_def fib_output_def fib_text_def fib_body_def escaped_def)

lemma isError_54: "isError (fib_payload ''54'') = False"
  by (simp add: isError_def fib_payload_def)

text \<open>
  C1 as stated fails: a target answers the fibonacci call with a well-formed payload whose
  result is 54. The payload is decoded, carries no error field and carries a result field, and
  the scenario's predicate rejects it; the session is nevertheless recorded as not an error
  (no \<open>mcp_errors\<close> increment, the \<open>mcp_error_rate\<close> sample is false), and only the k6 check
  records the rejection.
\<close>

theorem session_classification_counterexample:
  "fib_check (JSON_parse wrong_fib_env)
     (callResult (fst (mcpSession wrong_fib_env ''calculate_fibonacci'' (JObj [(''n'', JNum 10)])
        (initial_vu 0)))) = False \<and>
   mcpErrorRate (met (run_tool wrong_fib_env (TOOLS ! 0) (initial_vu 0))) = [False] \<and>
   mcpErrors (met (run_tool wrong_fib_env (TOOLS ! 0) (initial_vu 0))) = 0 \<and>
   checks (met (run_tool wrong_fib_env (TOOLS ! 0) (initial_vu 0))) = [(''fibonacci ok'', False)]"
proof -
  have t: "name (TOOLS ! 0) = ''calculate_fibonacci''" "args (TOOLS ! 0) = JObj [(''n'', JNum 10)]"
    "checkName (TOOLS ! 0) = ''fibonacci ok''" "check (TOOLS ! 0) = fib_check"
    by (simp_all add: TOOLS_def)
  have i: "mcpErrorRate (met (initial_vu (0::nat))) = []" "mcpErrors (met (initial_vu (0::nat))) = 0"
    "checks (met (initial_vu (0::nat))) = []"
    by (simp_all add: initial_vu_def no_metrics_def)
  show ?thesis
    by (simp add: run_tool_rate t mcpSession_metrics wrong_fib_session fib_check_54 isError_54 i)
qed

text \<open>
  C1, amended. A session is counted as an error (one more \<open>mcp_errors\<close>, a true sample of
  \<open>mcp_error_rate\<close>) exactly when the decoded result of the invoke step is null or otherwise
  falsy, or its error field is truthy, or its result field is missing or falsy; otherwise a
  false sample is recorded. The scenario's validation predicate takes no part in this: its
  verdict on the same decoded result is recorded separately, as a k6 check.
\<close>

theorem session_error_classification:
  "mcpErrorRate (met (run_tool E t st)) =
     mcpErrorRate (met st) @ [isError (callResult (fst (mcpSession E (name t) (args t) st)))] \<and>
   mcpErrors (met (run_tool E t st)) =
     mcpErrors (met st) + (if isError (callResult (fst (mcpSession E (name t) (args t) st))) then 1 else 0) \<and>
   checks (met (run_tool E t st)) =
     checks (met st)
       @ [(checkName t, check t (JSON_parse E) (callResult (fst (mcpSession E (name t) (args t) st))))] \<and>
   callResult (fst (mcpSession E (name t) (args t) st)) =
     parseBody (JSON_parse E) (res_body (callRes (fst (mcpSession E (name t) (args t) st)))) \<and>
   isError r = (\<not> truthy r \<or> truthy (jget r ''error'') \<or> \<not> truthy (jget r ''result''))"
  using mcpSession_callResult [of E "name t" "args t" st]
  by (simp add: run_tool_rate mcpSession_metrics isError_def)

lemma failed_session:
  "callResult (fst (mcpSession (stub_env None None failed_response []) ''calculate_fibonacci''
      (JObj [(''n'', JNum 10)]) (initial_vu 0))) = JNull"
  by (simp add: mcpSession_def mcpPost_def http_send_def stub_env_def stub_serve_def
      Let_def initial_vu_def post_request_def send_initialized_def or_session_def parseBody_def)

theorem session_error_classification_witness:
  "mcpErrorRate (met (run_tool (stub_env None None failed_response []) (TOOLS ! 0) (initial_vu 0))) = [True] \<and>
   mcpErrors (met (run_tool (stub_env None None failed_response []) (TOOLS ! 0) (initial_vu 0))) = 1 \<and>
   checks (met (run_tool (stub_env None None failed_response []) (TOOLS ! 0) (initial_vu 0))) =
     [(''fibonacci ok'', False)] \<and>
   isError (JObj [(''error'', JObj [(''code'', JNum (- 32602))])]) \<and>
   isError (JObj [(''result'', JNull)]) \<and>
   isError (fib_payload ''55'') = False"
proof -
  have t: "name (TOOLS ! 0) = ''calculate_fibonacci''" "args (TOOLS ! 0) = JObj [(''n'', JNum 10)]"
    "checkName (TOOLS ! 0) = ''fibonacci ok''" "check (TOOLS ! 0) = fib_check"
    by (simp_all add: TOOLS_def)
  have i: "mcpErrorRate (met (initial_vu (0::nat))) = []" "mcpErrors (met (initial_vu (0::nat))) = 0"
    "checks (met (initial_vu (0::nat))) = []"
    by (simp_all add: initial_vu_def no_metrics_def)
  have c: "fib_check p JNull = False" for p by (simp add: fib_check_def has_content_def)
  have e: "isError JNull" by (simp add: isError_def)
  show ?thesis
    using session_error_classification [of "stub_env None None failed_response []" "TOOLS ! 0" "initial_vu 0"
        "JObj [(''error'', JObj [(''code'', JNum (- 32602))])]"]
      session_error_classification [of "stub_env None None failed_response []" "TOOLS ! 0" "initial_vu 0"
        "JObj [(''result'', JNull)]"]
      session_error_classification [of "stub_env None None failed_response []" "TOOLS ! 0" "initial_vu 0"
        "fib_payload ''55''"]
    by (simp add: t i failed_session c e fib_payload_def)
qed

text \<open>
  C4. If two targets differ only in how they answer DELETE requests, a session yields the same
  result record (responses, decoded result, total duration, token) and the same metrics
  (error counter, error rate, latency trends, checks). The error classification is a function of
  the decoded result of the invoke step alone, and a DELETE is sent exactly when a token was
  captured.
\<close>

theorem teardown_outcome_not_observed:
  assumes "\<forall>req w. req_method req \<noteq> DELETE \<longrightarrow> serve E' req w = serve E req w"
    and "now E' = now E" and "JSON_parse E' = JSON_parse E" and "SERVER_URL E' = SERVER_URL E"
  shows "fst (mcpSession E' n a st) = fst (mcpSession E n a st) \<and>
         met (snd (mcpSession E' n a st)) = met (snd (mcpSession E n a st)) \<and>
         met (run_tool E' t st) = met (run_tool E t st) \<and>
         mcpErrorRate (met (snd (mcpSession E n a st))) =
           mcpErrorRate (met st) @ [isError (callResult (fst (mcpSession E n a st)))] \<and>
         mcpErrors (met (snd (mcpSession E n a st))) =
           mcpErrors (met st) + (if isError (callResult (fst (mcpSession E n a st))) then 1 else 0) \<and>
         list_ex is_teardown (drop (length (trace st)) (trace (snd (mcpSession E n a st)))) =
           sid_truthy (sessionId (fst (mcpSession E n a st)))"
  by (simp add: mcpSession_env [OF assms] run_tool_env [OF assms] mcpSession_metrics
      mcpSession_trace teardown_in_session)

lemma right_fib_session:
  "fst (mcpSession (right_fib_env d) ''calculate_fibonacci'' (JObj [(''n'', JNum 10)]) (initial_vu 0)) =
     \<lparr>initRes = \<lparr>res_headers = [(''Mcp-Session-Id'', ''s1'')], res_body = Some (fib_body ''55''),
                  timings_duration = 1\<rparr>,
       callRes = \<lparr>res_headers = [(''Mcp-Session-Id'', ''s1'')], res_body = Some (fib_body ''55''),
                  timings_duration = 1\<rparr>,
       callResult = fib_payload ''55'', totalDuration = 9, sessionId = Some ''s1''\<rparr>"
  by (simp add: mcpSession_def mcpPost_def http_send_def right_fib_env_def stub_env_def stub_serve_def
      Let_def initial_vu_def post_request_def send_initialized_def or_session_def
      parseBody_def parse_table_def fib_body_def fib_text_def escaped_def trim_def is_ws_def startsWith_def)

theorem teardown_outcome_not_observed_witness:
  "fst (mcpSession (right_fib_env failed_response) ''calculate_fibonacci'' (JObj [(''n'', JNum 10)]) (initial_vu 0)) =
     fst (mcpSession (right_fib_env empty_response) ''calculate_fibonacci'' (JObj [(''n'', JNum 10)]) (initial_vu 0)) \<and>
   met (run_tool (right_fib_env failed_response) (TOOLS ! 0) (initial_vu 0)) =
     met (run_tool (right_fib_env empty_response) (TOOLS ! 0) (initial_vu 0)) \<and>
   mcpErrorRate (met (snd (mcpSession (right_fib_env empty_response) ''calculate_fibonacci''
     (JObj [(''n'', JNum 10)]) (initial_vu 0)))) = [False] \<and>
   list_ex is_teardown (trace (snd (mcpSession (right_fib_env empty_response) ''calculate_fibonacci''
     (JObj [(''n'', JNum 10)]) (initial_vu 0))))"
proof -
  let ?E' = "right_fib_env failed_response" and ?E = "right_fib_env empty_response"
  have h1: "\<forall>req w. req_method req \<noteq> DELETE \<longrightarrow> serve ?E' req w = serve ?E req w"
  proof (intro allI impI)
    fix req :: http_request and w :: nat
    assume "req_method req \<noteq> DELETE"
    then have "req_method req = POST" by (cases "req_method req") simp_all
    then show "serve ?E' req w = serve ?E req w"
      by (simp add: right_fib_env_def stub_env_def stub_serve_def)
  qed
  have h2: "now ?E' = now ?E" "JSON_parse ?E' = JSON_parse ?E" "SERVER_URL ?E' = SERVER_URL ?E"
    by (simp_all add: right_fib_env_def stub_env_def)
  have e: "isError (fib_payload ''55'') = False" by (simp add: isError_def fib_payload_def)
  have i: "mcpErrorRate (met (initial_vu (0::nat))) = []" "trace (initial_vu (0::nat)) = []"
    by (simp_all add: initial_vu_def no_metrics_def)
  show ?thesis
    using teardown_outcome_not_observed [OF h1 h2, of "''calculate_fibonacci''" "JObj [(''n'', JNum 10)]"
        "initial_vu 0" "TOOLS ! 0"]
    by (simp add: right_fib_session e i sid_truthy_def)
qed

section \<open>The scenario checks and the servers' tools\<close>














lemma toUpperCase_benchmark:
  "toUpperCase ''benchmark'' = ''BENCHMARK''" "toUpperCase ''value'' = ''VALUE''"
  by code_simp+

lemma node_benchmark_data:
  "node_transformStrings (JObj benchmark_data) =
     JObj [(''name'', JStr ''BENCHMARK''), (''count'', JNum 42),
           (''nested'', JObj [(''key'', JStr ''VALUE'')])]"
  by (simp add: benchmark_data_def toUpperCase_benchmark)

lemma go_benchmark_data:
  "go_transformStrings (JObj benchmark_data) =
     JObj [(''name'', JStr ''BENCHMARK''), (''count'', JNum 42),
           (''nested'', JObj [(''key'', JStr ''VALUE'')])]"
  by (simp add: benchmark_data_def toUpperCase_benchmark)

lemma java_benchmark_data:
  "transformStrings benchmark_data =
     [(''name'', JStr ''BENCHMARK''), (''count'', JNum 42),
      (''nested'', JObj [(''key'', JStr ''VALUE'')])]"
  by (simp add: benchmark_data_def toUpperCase_benchmark)

text \<open>
  Outside the benchmark's input the implementations differ: the Java version does not descend
  into lists, the Node.js and Go versions do.
\<close>

lemma java_keeps_strings_in_lists:
  "transformStrings [(''tags'', JArr [JStr ''a''])] = [(''tags'', JArr [JStr ''a''])] \<and>
   node_transformStrings (JObj [(''tags'', JArr [JStr ''a''])]) = JObj [(''tags'', JArr [JStr ''A''])] \<and>
   go_transformStrings (JObj [(''tags'', JArr [JStr ''a''])]) = JObj [(''tags'', JArr [JStr ''A''])]"
proof -
  have "toUpperCase ''a'' = ''A''" by code_simp
  then show ?thesis by simp
qed



section \<open>Thresholds and the summary\<close>


lemma value_of_mark [simp]: "value_of (md\<lparr>mthresholds := x\<rparr>) key = value_of md key"
  by (simp add: value_of_def)











section \<open>The orchestrator: what each step adds to the log\<close>

lemma adds_refl: "adds P s s"
  by (simp add: adds_def added_def)

lemma adds_log: "adds P s s' \<Longrightarrow> sh_log s' = sh_log s @ added s s'"
  by (metis adds_def added_def append_take_drop_id)

lemma addsI: "sh_log s' = sh_log s @ new \<Longrightarrow> list_all P new \<Longrightarrow> adds P s s'"
  by (simp add: adds_def added_def)

lemma adds_trans: "adds P s s' \<Longrightarrow> adds P s' s'' \<Longrightarrow> adds P s s''"
proof -
  assume a: "adds P s s'" and b: "adds P s' s''"
  have "sh_log s'' = sh_log s @ (added s s' @ added s' s'')"
    using adds_log [OF a] adds_log [OF b] by simp
  moreover have "list_all P (added s s' @ added s' s'')"
    using a b by (simp add: adds_def)
  ultimately show ?thesis by (rule addsI)
qed

lemma added_trans:
  "adds P s s' \<Longrightarrow> adds Q s' s'' \<Longrightarrow> added s s'' = added s s' @ added s' s''"
proof -
  assume a: "adds P s s'" and b: "adds Q s' s''"
  have e: "sh_log s'' = sh_log s @ (added s s' @ added s' s'')"
    using adds_log [OF a] adds_log [OF b] by simp
  show ?thesis by (subst added_def, subst e, simp)
qed

lemma adds_mono: "adds P s s' \<Longrightarrow> (\<And>e. P e \<Longrightarrow> Q e) \<Longrightarrow> adds Q s s'"
  by (auto simp: adds_def list_all_iff)

lemma adds_run: "P (Run c) \<Longrightarrow> adds P s (snd (run X c s))"
  by (auto simp: run_def adds_def added_def split: prod.splits)

lemma adds_say: "P e \<Longrightarrow> adds P s (say e s)"
  by (simp add: say_def adds_def added_def)

lemma snd_run_e: "snd (run_e X b c s) = snd (run X c s)"
  by (simp add: run_e_def split: prod.splits)

lemma adds_run_e: "P (Run c) \<Longrightarrow> adds P s (snd (run_e X b c s))"
  by (simp add: snd_run_e adds_run)

lemma started_append: "started (xs @ ys) = started xs @ started ys"
  by (simp add: started_def List.map_filter_def)

lemma not_start_maps_none:
  "\<not> is_start e \<Longrightarrow>
   (case e of Run c \<Rightarrow> (case c of ComposeUp service \<Rightarrow> Some service | _ \<Rightarrow> None) | _ \<Rightarrow> None) = None"
  by (cases e; simp add: is_start_def) (rename_tac c, case_tac c; simp)

lemma started_none: "list_all (\<lambda>e. \<not> is_start e) es \<Longrightarrow> started es = []"
  by (induction es) (simp_all add: started_def map_filter_simps not_start_maps_none)

lemma started_unchanged:
  "adds (\<lambda>e. \<not> is_start e) s s' \<Longrightarrow> started (sh_log s') = started (sh_log s)"
proof -
  assume a: "adds (\<lambda>e. \<not> is_start e) s s'"
  have "started (added s s') = []" using a by (intro started_none) (simp add: adds_def)
  then have "started (sh_log s @ added s s') = started (sh_log s)"
    by (simp only: started_append append_Nil2)
  then show ?thesis by (simp only: adds_log [OF a, symmetric])
qed

lemma housekeeping_simps [simp]:
  "housekeeping (Info t)" "housekeeping (Ok t)" "housekeeping (Warn t)" "housekeeping (Err t)"
  "housekeeping (Run (Mkdir p))" "housekeeping (Run (Cd p))" "housekeeping (Run ComposeStopAll)"
  "housekeeping (Run (SleepCmd k))" "housekeeping (Run (CurlHealth port path))"
  "housekeeping (Run (CurlInitialize url ''health''))" "housekeeping (Run ComposeUpMockApi)"
  "housekeeping (Run CurlMockStatus)" "housekeeping (Run (Consolidate p))"
  by (simp_all add: housekeeping_def is_measurement_def is_start_def)

lemma adds_run_eq: "run X c s = (b, s') \<Longrightarrow> P (Run c) \<Longrightarrow> adds P s s'"
  using adds_run [of P c s X] by simp

lemma adds_run_e_eq: "run_e X e c s = (b, s') \<Longrightarrow> P (Run c) \<Longrightarrow> adds P s s'"
  using adds_run_e [of P c s X e] by simp

lemma stop_all_servers_adds: "adds housekeeping s (snd (stop_all_servers X e D s))"
proof -
  let ?s0 = "say (Info ''Stopping all MCP server containers...'') s"
  obtain b1 s1 where r1: "run_e X e (Cd (PROJECT_DIR D)) ?s0 = (b1, s1)" by (metis prod.exhaust)
  obtain b2 s2 where r2: "run X ComposeStopAll s1 = (b2, s2)" by (metis prod.exhaust)
  obtain b3 s3 where r3: "run_e X e (SleepCmd 2) s2 = (b3, s3)" by (metis prod.exhaust)
  have a0: "adds housekeeping s ?s0" by (simp add: adds_say)
  have a1: "adds housekeeping s s1"
    by (rule adds_trans [OF a0], rule adds_run_e_eq [OF r1]) simp
  have a2: "adds housekeeping s s2"
    by (rule adds_trans [OF a1], rule adds_run_eq [OF r2]) simp
  have a3: "adds housekeeping s s3"
    by (rule adds_trans [OF a2], rule adds_run_e_eq [OF r3]) simp
  have a4: "adds housekeeping s (say (Ok ''All servers stopped'') s3)"
    by (rule adds_trans [OF a3]) (simp add: adds_say)
  show ?thesis
  proof (cases b1)
    case False
    then show ?thesis using a1 by (simp add: stop_all_servers_def r1)
  next
    case t1: True
    show ?thesis
    proof (cases b3)
      case False
      then show ?thesis using a3 t1 by (simp add: stop_all_servers_def r1 r2 r3)
    next
      case True
      then show ?thesis using a4 t1 by (simp add: stop_all_servers_def r1 r2 r3)
    qed
  qed
qed

lemma wait_for_health_loop_round:
  obtains (ready) s' where
      "wait_for_health_loop X port n elapsed s = (True, say (Ok (n @ '' is ready'')) s')"
      "adds housekeeping s s'"
    | (timeout) s' where
      "wait_for_health_loop X port n elapsed s = (False, say (Err (n @ '' failed to start after 60s'')) s')"
      "adds housekeeping s s'"
    | (again) s' where
      "wait_for_health_loop X port n elapsed s = wait_for_health_loop X port n (elapsed + 1) s'"
      "adds housekeeping s s'" "elapsed < 59"
proof -
  obtain b1 s1 where r1: "run X (CurlHealth port ''/health'') s = (b1, s1)" by (metis prod.exhaust)
  obtain b2 s2 where r2: "run X (CurlHealth port ''/actuator/health'') s1 = (b2, s2)"
    by (metis prod.exhaust)
  obtain b3 s3 where r3: "run X (CurlInitialize (health_url port) ''health'') s2 = (b3, s3)"
    by (metis prod.exhaust)
  obtain b4 s4 where r4: "run X (SleepCmd (Suc 0)) s3 = (b4, s4)" by (metis prod.exhaust)
  have a1: "adds housekeeping s s1"
    by (rule adds_run_eq [OF r1]) simp
  have a2: "adds housekeeping s s2"
    by (rule adds_trans [OF a1], rule adds_run_eq [OF r2]) simp
  have a3: "adds housekeeping s s3"
    by (rule adds_trans [OF a2], rule adds_run_eq [OF r3]) simp
  have a4: "adds housekeeping s s4"
    by (rule adds_trans [OF a3], rule adds_run_eq [OF r4]) simp
  show thesis
  proof (cases b1)
    case True
    show thesis
      by (rule ready [OF _ a1]) (subst wait_for_health_loop.simps, simp add: r1 True)
  next
    case f1: False
    show thesis
    proof (cases b2)
      case True
      show thesis
        by (rule ready [OF _ a2])
          (subst wait_for_health_loop.simps, simp add: r1 r2 f1 True)
    next
      case f2: False
      show thesis
      proof (cases b3)
        case True
        show thesis
          by (rule ready [OF _ a3])
            (subst wait_for_health_loop.simps, simp add: r1 r2 r3 f1 f2 True)
      next
        case f3: False
        show thesis
        proof (cases "elapsed + 1 \<ge> 60")
          case True
          show thesis
            by (rule timeout [OF _ a4])
              (subst wait_for_health_loop.simps, use True in \<open>simp add: r1 r2 r3 r4 f1 f2 f3\<close>)
        next
          case False
          then have "elapsed < 59" by simp
          show thesis
            by (rule again [OF _ a4 \<open>elapsed < 59\<close>])
              (subst wait_for_health_loop.simps, use False in \<open>simp add: r1 r2 r3 r4 f1 f2 f3\<close>)
        qed
      qed
    qed
  qed
qed

lemma wait_for_health_loop_adds:
  "adds housekeeping s (snd (wait_for_health_loop X port n elapsed s))"
proof (induction "60 - elapsed" arbitrary: elapsed s rule: less_induct)
  case less
  show ?case
  proof (cases rule: wait_for_health_loop_round [of X port n elapsed s])
    case (ready s')
    have "adds housekeeping s (say (Ok (n @ '' is ready'')) s')"
      by (rule adds_trans [OF ready(2)]) (simp add: adds_say)
    then show ?thesis by (simp only: ready(1) snd_conv)
  next
    case (timeout s')
    have "adds housekeeping s (say (Err (n @ '' failed to start after 60s'')) s')"
      by (rule adds_trans [OF timeout(2)]) (simp add: adds_say)
    then show ?thesis by (simp only: timeout(1) snd_conv)
  next
    case (again s')
    have "adds housekeeping s' (snd (wait_for_health_loop X port n (elapsed + 1) s'))"
      by (rule less) (use again(3) in simp)
    then have "adds housekeeping s (snd (wait_for_health_loop X port n (elapsed + 1) s'))"
      by (rule adds_trans [OF again(2)])
    then show ?thesis by (simp only: again(1))
  qed
qed

lemma wait_for_health_adds: "adds housekeeping s (snd (wait_for_health X port n s))"
  unfolding wait_for_health_def
  by (rule adds_trans [OF _ wait_for_health_loop_adds]) (simp add: adds_say)

lemma run_status: "fst (run X c s) = fst (X c (sh_world s))"
  by (simp add: run_def split: prod.splits)

text \<open>A target that answers no probe: every round fails, and the loop gives up.\<close>

lemma wait_for_health_loop_unanswered:
  assumes "\<forall>w. \<not> fst (X (CurlHealth port ''/health'') w)"
    and "\<forall>w. \<not> fst (X (CurlHealth port ''/actuator/health'') w)"
    and "\<forall>w. \<not> fst (X (CurlInitialize (health_url port) ''health'') w)"
  shows "elapsed < 60 \<Longrightarrow>
     fst (wait_for_health_loop X port n elapsed s) = False \<and>
     length (filter is_probe (sh_log (snd (wait_for_health_loop X port n elapsed s)))) =
       length (filter is_probe (sh_log s)) + 3 * (60 - elapsed)"
proof (induction "60 - elapsed" arbitrary: elapsed s rule: less_induct)
  case less
  obtain b1 s1 where r1: "run X (CurlHealth port ''/health'') s = (b1, s1)" by (metis prod.exhaust)
  obtain b2 s2 where r2: "run X (CurlHealth port ''/actuator/health'') s1 = (b2, s2)"
    by (metis prod.exhaust)
  obtain b3 s3 where r3: "run X (CurlInitialize (health_url port) ''health'') s2 = (b3, s3)"
    by (metis prod.exhaust)
  obtain b4 s4 where r4: "run X (SleepCmd (Suc 0)) s3 = (b4, s4)" by (metis prod.exhaust)
  have f1: "b1 = False" using run_status [of X "CurlHealth port ''/health''" s] assms(1) by (simp add: r1)
  have f2: "b2 = False"
    using run_status [of X "CurlHealth port ''/actuator/health''" s1] assms(2) by (simp add: r2)
  have f3: "b3 = False"
    using run_status [of X "CurlInitialize (health_url port) ''health''" s2] assms(3) by (simp add: r3)
  have l1: "sh_log s1 = sh_log s @ [Run (CurlHealth port ''/health'')]"
    using r1 by (auto simp: run_def split: prod.splits)
  have l2: "sh_log s2 = sh_log s1 @ [Run (CurlHealth port ''/actuator/health'')]"
    using r2 by (auto simp: run_def split: prod.splits)
  have l3: "sh_log s3 = sh_log s2 @ [Run (CurlInitialize (health_url port) ''health'')]"
    using r3 by (auto simp: run_def split: prod.splits)
  have l4: "sh_log s4 = sh_log s3 @ [Run (SleepCmd (Suc 0))]"
    using r4 by (auto simp: run_def split: prod.splits)
  have p4: "length (filter is_probe (sh_log s4)) = length (filter is_probe (sh_log s)) + 3"
    by (simp add: l1 l2 l3 l4 is_probe_def)
  show ?case
  proof (cases "elapsed + 1 \<ge> 60")
    case True
    then have e: "60 - elapsed = 1" using less.prems by simp
    have "wait_for_health_loop X port n elapsed s =
        (False, say (Err (n @ '' failed to start after 60s'')) s4)"
      by (subst wait_for_health_loop.simps, use True in \<open>simp add: r1 r2 r3 r4 f1 f2 f3\<close>)
    then show ?thesis using p4 e by (simp add: say_def is_probe_def)
  next
    case False
    have u: "wait_for_health_loop X port n elapsed s = wait_for_health_loop X port n (elapsed + 1) s4"
      by (subst wait_for_health_loop.simps, use False in \<open>simp add: r1 r2 r3 r4 f1 f2 f3\<close>)
    have "fst (wait_for_health_loop X port n (elapsed + 1) s4) = False \<and>
       length (filter is_probe (sh_log (snd (wait_for_health_loop X port n (elapsed + 1) s4)))) =
         length (filter is_probe (sh_log s4)) + 3 * (60 - (elapsed + 1))"
      by (rule less(1)) (use False in simp_all)
    then show ?thesis using p4 False by (simp only: u) simp
  qed
qed

lemma wait_for_health_unanswered:
  assumes "\<forall>w. \<not> fst (X (CurlHealth port ''/health'') w)"
    and "\<forall>w. \<not> fst (X (CurlHealth port ''/actuator/health'') w)"
    and "\<forall>w. \<not> fst (X (CurlInitialize (health_url port) ''health'') w)"
  shows "fst (wait_for_health X port n s) = False"
    and "length (filter is_probe (sh_log (snd (wait_for_health X port n s)))) =
       length (filter is_probe (sh_log s)) + 180"
  using wait_for_health_loop_unanswered [OF assms, of 0 n
      "say (Info (''Waiting for '' @ n @ '' to be ready (port '' @ port @ '')...'')) s"]
  by (simp_all add: wait_for_health_def say_def is_probe_def)

lemma start_server_log:
  "sh_log (start_server X D service s) =
     sh_log s @ [Info (''Starting '' @ service @ ''...''), Run (Cd (PROJECT_DIR D)), Run (ComposeUp service)]"
  by (simp add: start_server_def run_def say_def split: prod.splits)

lemma repeat_cmds_adds:
  "list_all (\<lambda>c. P (Run c)) cs \<Longrightarrow> adds P s (repeat_cmds X k cs s)"
proof (induction k arbitrary: s)
  case 0
  show ?case by (simp add: adds_refl)
next
  case (Suc k)
  have f: "adds P s (fold (\<lambda>c st. snd (run X c st)) cs' s)" if "list_all (\<lambda>c. P (Run c)) cs'" for cs' s
    using that
  proof (induction cs' arbitrary: s)
    case Nil
    show ?case by (simp add: adds_refl)
  next
    case (Cons c cs')
    have "adds P s (snd (run X c s))" using Cons.prems by (simp add: adds_run)
    moreover have "adds P (snd (run X c s)) (fold (\<lambda>c st. snd (run X c st)) cs' (snd (run X c s)))"
      using Cons.prems by (intro Cons.IH) simp
    ultimately show ?case by (simp add: adds_trans)
  qed
  show ?case
    using adds_trans [OF f [OF Suc.prems, of s] Suc.IH [OF Suc.prems]] by simp
qed

lemma not_start_simps [simp]:
  "\<not> is_start (Info t)" "\<not> is_start (Ok t)" "\<not> is_start (Warn t)" "\<not> is_start (Err t)"
  "\<not> is_start (Run (Mkdir p))" "\<not> is_start (Run (SleepCmd k))"
  "\<not> is_start (Run (CurlInitialize url who))" "\<not> is_start (Run (CurlToolCall url))"
  "\<not> is_start (Run (CollectStats c p))" "\<not> is_start (Run (K6Run url n p))"
  "\<not> is_start (Run KillStats)" "\<not> is_start (Run WaitStats)"
  by (simp_all add: is_start_def)

lemma housekeeping_not_start: "adds housekeeping s s' \<Longrightarrow> adds (\<lambda>e. \<not> is_start e) s s'"
  by (erule adds_mono) (simp add: housekeeping_def)

lemma housekeeping_not_measurement: "adds housekeeping s s' \<Longrightarrow> adds (\<lambda>e. \<not> is_measurement e) s s'"
  by (erule adds_mono) (simp add: housekeeping_def)

lemma warmup_adds: "adds (\<lambda>e. \<not> is_start e) s (warmup X url n s)"
proof -
  let ?s0 = "say (Info (''Warming up '' @ n @ '' (10 init + 5 tool calls)...'')) s"
  let ?s1 = "repeat_cmds X 10 [CurlInitialize url ''warmup''] ?s0"
  let ?s2 = "repeat_cmds X 5 [CurlInitialize url ''warmup'', CurlToolCall url] ?s1"
  have a0: "adds (\<lambda>e. \<not> is_start e) s ?s0" by (simp add: adds_say)
  have a1: "adds (\<lambda>e. \<not> is_start e) s ?s1"
    by (rule adds_trans [OF a0], rule repeat_cmds_adds) simp
  have a2: "adds (\<lambda>e. \<not> is_start e) s ?s2"
    by (rule adds_trans [OF a1], rule repeat_cmds_adds) simp
  show ?thesis
    unfolding warmup_def by (rule adds_trans [OF a2]) (simp add: adds_say)
qed

text \<open>\<open>benchmark_server\<close>, split at the state in which it begins to wait for the target.\<close>

lemma benchmark_server_unfold:
  "benchmark_server X D n container port s =
     (case wait_for_health X port n (before_wait X D n s) of
        (False, s4) \<Rightarrow> (False, say (Err (''Skipping '' @ n @ '' - failed to start'')) s4)
      | (True, s4) \<Rightarrow> (True, after_wait X D n container port s4))"
  by (simp add: benchmark_server_def before_wait_def after_wait_def Let_def
      split: prod.splits bool.splits)

lemma before_wait_started:
  "started (sh_log (before_wait X D n s)) = started (sh_log s) @ [n @ ''-server'']"
proof -
  let ?s1 = "snd (run X (Mkdir (RESULTS_DIR D @ ''/'' @ n)) s)"
  let ?s2 = "snd (stop_all_servers X False D ?s1)"
  have "adds (\<lambda>e. \<not> is_start e) s ?s1" by (simp add: adds_run)
  then have "adds (\<lambda>e. \<not> is_start e) s ?s2"
    by (rule adds_trans) (rule housekeeping_not_start [OF stop_all_servers_adds])
  then have s2: "started (sh_log ?s2) = started (sh_log s)" by (rule started_unchanged)
  have k: "started [Info a, Run (Cd p), Run (ComposeUp service)] = [service]" for a p service
    by (simp add: started_def map_filter_simps)
  show ?thesis
    unfolding before_wait_def by (simp only: start_server_log started_append s2 k)
qed

lemma before_wait_adds: "adds (\<lambda>e. \<not> is_measurement e) s (before_wait X D n s)"
proof -
  let ?s1 = "snd (run X (Mkdir (RESULTS_DIR D @ ''/'' @ n)) s)"
  let ?s2 = "snd (stop_all_servers X False D ?s1)"
  have nm: "\<not> is_measurement (Run (Mkdir p))" "\<not> is_measurement (Info t)"
    "\<not> is_measurement (Run (Cd p))" "\<not> is_measurement (Run (ComposeUp p))" for p t
    by (simp_all add: is_measurement_def)
  have a1: "adds (\<lambda>e. \<not> is_measurement e) s ?s1" by (simp add: adds_run nm)
  have a2: "adds (\<lambda>e. \<not> is_measurement e) s ?s2"
    by (rule adds_trans [OF a1]) (rule housekeeping_not_measurement [OF stop_all_servers_adds])
  have "adds (\<lambda>e. \<not> is_measurement e) ?s2 (start_server X D (n @ ''-server'') ?s2)"
    by (rule addsI [OF start_server_log]) (simp add: nm)
  then show ?thesis
    unfolding before_wait_def by (rule adds_trans [OF a2])
qed

lemma after_wait_adds: "adds (\<lambda>e. \<not> is_start e) s4 (after_wait X D n container port s4)"
proof -
  let ?url = "''http://localhost:'' @ port @ ''/mcp''"
  let ?res = "RESULTS_DIR D @ ''/'' @ n"
  let ?s5 = "warmup X ?url n s4"
  let ?s6 = "snd (run X (CollectStats container (?res @ ''/stats.json''))
                (say (Info ''Starting Docker stats collector...'') ?s5))"
  let ?s7 = "snd (run X (SleepCmd 1) ?s6)"
  let ?s8 = "snd (run X (K6Run ?url n (?res @ ''/k6.json''))
                (say (Info ''Running k6 benchmark (50 VUs, 5m)...'') ?s7))"
  let ?s9 = "snd (run X KillStats (say (Info ''Stopping stats collector...'') ?s8))"
  let ?s10 = "snd (run X WaitStats ?s9)"
  have a5: "adds (\<lambda>e. \<not> is_start e) s4 ?s5" by (rule warmup_adds)
  have a6: "adds (\<lambda>e. \<not> is_start e) s4 ?s6"
    by (rule adds_trans [OF a5], rule adds_trans [OF adds_say adds_run]) simp_all
  have a7: "adds (\<lambda>e. \<not> is_start e) s4 ?s7"
    by (rule adds_trans [OF a6], rule adds_run) simp
  have a8: "adds (\<lambda>e. \<not> is_start e) s4 ?s8"
    by (rule adds_trans [OF a7], rule adds_trans [OF adds_say adds_run]) simp_all
  have a9: "adds (\<lambda>e. \<not> is_start e) s4 ?s9"
    by (rule adds_trans [OF a8], rule adds_trans [OF adds_say adds_run]) simp_all
  have a10: "adds (\<lambda>e. \<not> is_start e) s4 ?s10"
    by (rule adds_trans [OF a9], rule adds_run) simp
  show ?thesis
    unfolding after_wait_def Let_def by (rule adds_trans [OF a10], rule adds_say) simp
qed

lemma benchmark_server_started:
  "started (sh_log (snd (benchmark_server X D n container port s))) =
     started (sh_log s) @ [n @ ''-server'']"
proof -
  obtain b4 s4 where w: "wait_for_health X port n (before_wait X D n s) = (b4, s4)"
    by (metis prod.exhaust)
  have a4: "adds (\<lambda>e. \<not> is_start e) (before_wait X D n s) s4"
    using housekeeping_not_start [OF wait_for_health_adds [of "before_wait X D n s" X port n]]
    unfolding w by simp
  show ?thesis
  proof (cases b4)
    case False
    have "adds (\<lambda>e. \<not> is_start e) (before_wait X D n s)
        (say (Err (''Skipping '' @ n @ '' - failed to start'')) s4)"
      by (rule adds_trans [OF a4]) (simp add: adds_say)
    then have "started (sh_log (say (Err (''Skipping '' @ n @ '' - failed to start'')) s4)) =
        started (sh_log (before_wait X D n s))"
      by (rule started_unchanged)
    then show ?thesis
      unfolding benchmark_server_unfold w using False by (simp add: before_wait_started)
  next
    case True
    have "adds (\<lambda>e. \<not> is_start e) (before_wait X D n s) (after_wait X D n container port s4)"
      by (rule adds_trans [OF a4 after_wait_adds])
    then have "started (sh_log (after_wait X D n container port s4)) =
        started (sh_log (before_wait X D n s))"
      by (rule started_unchanged)
    then show ?thesis
      unfolding benchmark_server_unfold w using True by (simp add: before_wait_started)
  qed
qed

lemma wait_for_health_rounds:
  assumes "\<forall>w. \<not> fst (X (CurlHealth port ''/health'') w)"
    and "\<forall>w. \<not> fst (X (CurlHealth port ''/actuator/health'') w)"
    and "\<forall>w. \<not> fst (X (CurlInitialize (health_url port) ''health'') w)"
  shows "length (filter is_probe (added s (snd (wait_for_health X port n s)))) = 180"
proof -
  let ?s' = "snd (wait_for_health X port n s)"
  have "sh_log ?s' = sh_log s @ added s ?s'"
    by (rule adds_log [OF wait_for_health_adds])
  then have "length (filter is_probe (sh_log ?s')) =
      length (filter is_probe (sh_log s)) + length (filter is_probe (added s ?s'))"
    by (metis filter_append length_append)
  then show ?thesis
    using wait_for_health_unanswered(2) [OF assms, of n s] by simp
qed

lemma benchmark_server_skips:
  assumes "\<forall>w. \<not> fst (X (CurlHealth port ''/health'') w)"
    and "\<forall>w. \<not> fst (X (CurlHealth port ''/actuator/health'') w)"
    and "\<forall>w. \<not> fst (X (CurlInitialize (health_url port) ''health'') w)"
  shows "fst (benchmark_server X D n container port s) = False"
    and "adds (\<lambda>e. \<not> is_measurement e) s (snd (benchmark_server X D n container port s))"
proof -
  let ?s3 = "before_wait X D n s"
  obtain b4 s4 where w: "wait_for_health X port n ?s3 = (b4, s4)" by (metis prod.exhaust)
  have b4: "b4 = False" using wait_for_health_unanswered(1) [OF assms, of n ?s3] unfolding w by simp
  have r: "benchmark_server X D n container port s =
      (False, say (Err (''Skipping '' @ n @ '' - failed to start'')) s4)"
    unfolding benchmark_server_unfold w by (simp add: b4)
  show "fst (benchmark_server X D n container port s) = False" by (simp add: r)
  have nm: "\<not> is_measurement (Err t)" for t by (simp add: is_measurement_def)
  have a3: "adds (\<lambda>e. \<not> is_measurement e) s ?s3" by (rule before_wait_adds)
  have "adds (\<lambda>e. \<not> is_measurement e) ?s3 s4"
    using housekeeping_not_measurement [OF wait_for_health_adds [of ?s3 X port n]]
    unfolding w by simp
  then have a4: "adds (\<lambda>e. \<not> is_measurement e) s s4" by (rule adds_trans [OF a3])
  have a5: "adds (\<lambda>e. \<not> is_measurement e) s (say (Err (''Skipping '' @ n @ '' - failed to start'')) s4)"
    by (rule adds_trans [OF a4]) (simp add: adds_say nm)
  then show "adds (\<lambda>e. \<not> is_measurement e) s (snd (benchmark_server X D n container port s))"
    by (simp add: r)
qed

lemma benchmark_each_continues:
  "\<forall>n\<in>set names. map_of SERVERS n \<noteq> None \<Longrightarrow>
   \<exists>s'. benchmark_each X D names s = Some s' \<and>
        started (sh_log s') = started (sh_log s) @ map (\<lambda>n. n @ ''-server'') names"
proof (induction names arbitrary: s)
  case Nil
  show ?case by simp
next
  case (Cons n names)
  obtain container port where c: "map_of SERVERS n = Some (container, port)"
    using Cons.prems by auto
  obtain b s1 where r: "benchmark_server X D n container port s = (b, s1)" by (metis prod.exhaust)
  have st: "started (sh_log s1) = started (sh_log s) @ [n @ ''-server'']"
    using benchmark_server_started [of X D n container port s] by (simp add: r)
  let ?s2 = "if b then s1 else say (Warn (''Failed to benchmark '' @ n @ '', continuing...'')) s1"
  have st2: "started (sh_log ?s2) = started (sh_log s) @ [n @ ''-server'']"
    using st by (simp add: say_def started_append) (simp add: started_def)
  have e: "benchmark_each X D (n # names) s = benchmark_each X D names ?s2"
    by (cases b) (simp_all add: c r)
  obtain s' where "benchmark_each X D names ?s2 = Some s'"
    "started (sh_log s') = started (sh_log ?s2) @ map (\<lambda>n. n @ ''-server'') names"
    using Cons.IH [of ?s2] Cons.prems by auto
  then show ?case by (simp only: e st2) simp
qed

lemma wait_for_mock_api_loop_adds:
  "adds housekeeping s (snd (wait_for_mock_api_loop X elapsed s))"
proof (induction "60 - elapsed" arbitrary: elapsed s rule: less_induct)
  case less
  obtain b1 s1 where r1: "run X CurlMockStatus s = (b1, s1)" by (metis prod.exhaust)
  obtain b2 s2 where r2: "run X (SleepCmd (Suc 0)) s1 = (b2, s2)" by (metis prod.exhaust)
  have a1: "adds housekeeping s s1" by (rule adds_run_eq [OF r1]) simp
  have a2: "adds housekeeping s s2" by (rule adds_trans [OF a1], rule adds_run_eq [OF r2]) simp
  show ?case
  proof (cases b1)
    case True
    have "adds housekeeping s (say (Ok ''mock-api is ready'') s1)"
      by (rule adds_trans [OF a1]) (simp add: adds_say)
    then show ?thesis
      by (subst wait_for_mock_api_loop.simps) (simp add: r1 True)
  next
    case f1: False
    show ?thesis
    proof (cases b2)
      case False
      then show ?thesis using a2 f1
        by (subst wait_for_mock_api_loop.simps) (simp add: r1 r2)
    next
      case t2: True
      show ?thesis
      proof (cases "elapsed + 1 \<ge> 60")
        case True
        have "adds housekeeping s (say (Err ''mock-api failed to start after 60s'') s2)"
          by (rule adds_trans [OF a2]) (simp add: adds_say)
        then show ?thesis using True f1 t2
          by (subst wait_for_mock_api_loop.simps) (simp add: r1 r2)
      next
        case False
        have "adds housekeeping s2 (snd (wait_for_mock_api_loop X (elapsed + 1) s2))"
          by (rule less) (use False in simp)
        then have "adds housekeeping s (snd (wait_for_mock_api_loop X (elapsed + 1) s2))"
          by (rule adds_trans [OF a2])
        then show ?thesis using False f1 t2
          by (subst wait_for_mock_api_loop.simps) (simp add: r1 r2)
      qed
    qed
  qed
qed

lemma main_setup_adds: "adds housekeeping s (snd (main_setup X D s))"
proof -
  obtain b1 s1 where r1: "run X (Mkdir (RESULTS_DIR D)) s = (b1, s1)" by (metis prod.exhaust)
  obtain b2 s2 where r2:
    "run X (Cd (PROJECT_DIR D)) (say (Info ''Ensuring mock-api is running...'') s1) = (b2, s2)"
    by (metis prod.exhaust)
  obtain b3 s3 where r3: "run X ComposeUpMockApi s2 = (b3, s3)" by (metis prod.exhaust)
  have a1: "adds housekeeping s s1" by (rule adds_run_eq [OF r1]) simp
  have a2: "adds housekeeping s s2"
    by (rule adds_trans [OF a1], rule adds_trans [OF adds_say adds_run_eq [OF r2]]) simp_all
  have a3: "adds housekeeping s s3" by (rule adds_trans [OF a2], rule adds_run_eq [OF r3]) simp
  have a4: "adds housekeeping s (snd (wait_for_mock_api X s3))"
    unfolding wait_for_mock_api_def
    by (rule adds_trans [OF a3], rule adds_trans [OF adds_say wait_for_mock_api_loop_adds]) simp
  show ?thesis
    using a1 a2 a3 a4 by (cases b1; cases b2; cases b3) (simp_all add: main_setup_def r1 r2 r3)
qed

lemma main_finish_adds: "adds housekeeping s (snd (main_finish X D s))"
proof -
  obtain b1 s1 where r1: "stop_all_servers X True D s = (b1, s1)" by (metis prod.exhaust)
  have a1: "adds housekeeping s s1" using stop_all_servers_adds [of s X True D] by (simp add: r1)
  have "adds housekeeping s
      (snd (run X (Consolidate (RESULTS_DIR D)) (say (Info ''Consolidating results...'') s1)))"
    by (rule adds_trans [OF a1], rule adds_trans [OF adds_say adds_run]) simp_all
  then show ?thesis using a1 by (cases b1) (simp_all add: main_finish_def r1)
qed

lemma main_starts_every_target:
  assumes "\<forall>n\<in>set names. map_of SERVERS n \<noteq> None" and "fst (main_setup X D s)"
  shows "started (sh_log (snd (main X D names s))) =
     started (sh_log s) @ map (\<lambda>n. n @ ''-server'') names"
proof -
  obtain s1 where r1: "main_setup X D s = (True, s1)"
    using assms(2) by (cases "main_setup X D s") auto
  obtain s2 where r2: "benchmark_each X D names s1 = Some s2"
    and st: "started (sh_log s2) = started (sh_log s1) @ map (\<lambda>n. n @ ''-server'') names"
    using benchmark_each_continues [OF assms(1), of X D s1] by blast
  have "started (sh_log s1) = started (sh_log s)"
    using housekeeping_not_start [OF main_setup_adds [of s X D]]
    by (intro started_unchanged) (simp add: r1)
  moreover have "started (sh_log (snd (main_finish X D s2))) = started (sh_log s2)"
    by (rule started_unchanged [OF housekeeping_not_start [OF main_finish_adds]])
  ultimately show ?thesis by (simp add: main_def r1 r2 st)
qed

text \<open>
  C9. Take a configured target that answers none of the three health probes. Then
  \<open>wait_for_health\<close> gives up after 60 rounds (180 probes), \<open>benchmark_server\<close> returns
  status 1 having run no command of the warmup, the sampling or the load, and the loop logs a
  warning and goes on with the remaining targets. For every runner, whatever fails in a
  target's pipeline, the loop over a list of configured targets ends having started every
  target in order; so does \<open>main\<close>, once its commands before the loop have succeeded.
\<close>

theorem unhealthy_target_is_skipped_and_run_continues:
  assumes "\<forall>n\<in>set names. map_of SERVERS n \<noteq> None"
    and "map_of SERVERS n = Some (container, port)"
    and "\<forall>w. \<not> fst (X (CurlHealth port ''/health'') w)"
    and "\<forall>w. \<not> fst (X (CurlHealth port ''/actuator/health'') w)"
    and "\<forall>w. \<not> fst (X (CurlInitialize (health_url port) ''health'') w)"
  shows "fst (benchmark_server X D n container port s) = False \<and>
         list_all (\<lambda>e. \<not> is_measurement e) (added s (snd (benchmark_server X D n container port s))) \<and>
         length (filter is_probe (added s (snd (wait_for_health X port n s)))) = 180 \<and>
         benchmark_each X D (n # names) s =
           benchmark_each X D names
             (say (Warn (''Failed to benchmark '' @ n @ '', continuing...''))
                (snd (benchmark_server X D n container port s))) \<and>
         (\<exists>s'. benchmark_each X D names s = Some s' \<and>
               started (sh_log s') = started (sh_log s) @ map (\<lambda>n. n @ ''-server'') names) \<and>
         (fst (main_setup X D s) \<longrightarrow>
            started (sh_log (snd (main X D names s))) =
              started (sh_log s) @ map (\<lambda>n. n @ ''-server'') names)"
proof -
  have a: "fst (benchmark_server X D n container port s) = False"
    by (rule benchmark_server_skips(1) [OF assms(3-5)])
  have b: "list_all (\<lambda>e. \<not> is_measurement e) (added s (snd (benchmark_server X D n container port s)))"
    using benchmark_server_skips(2) [OF assms(3-5)] by (simp add: adds_def)
  have c: "length (filter is_probe (added s (snd (wait_for_health X port n s)))) = 180"
    by (rule wait_for_health_rounds [OF assms(3-5)])
  have d: "benchmark_each X D (n # names) s =
           benchmark_each X D names
             (say (Warn (''Failed to benchmark '' @ n @ '', continuing...''))
                (snd (benchmark_server X D n container port s)))"
    using a by (cases "benchmark_server X D n container port s") (simp add: assms(2))
  show ?thesis
    using a b c d benchmark_each_continues [OF assms(1), of X D s]
      main_starts_every_target [OF assms(1), of X D s]
    by blast
qed

theorem unhealthy_target_is_skipped_and_run_continues_witness:
  "fst (benchmark_server rust_down demo_dirs ''rust'' ''mcp-rust-server'' ''8084'' fresh_shell) = False \<and>
   list_all (\<lambda>e. \<not> is_measurement e)
     (added fresh_shell
        (snd (benchmark_server rust_down demo_dirs ''rust'' ''mcp-rust-server'' ''8084'' fresh_shell))) \<and>
   length (filter is_probe
     (added fresh_shell (snd (wait_for_health rust_down ''8084'' ''rust'' fresh_shell)))) = 180 \<and>
   (\<exists>s'. benchmark_each rust_down demo_dirs script_targets fresh_shell = Some s' \<and>
         started (sh_log s') = [''rust-server'', ''java-server'', ''go-server'']) \<and>
   started (sh_log (snd (main rust_down demo_dirs script_targets fresh_shell))) =
     [''rust-server'', ''java-server'', ''go-server'']"
proof -
  have h1: "\<forall>n\<in>set script_targets. map_of SERVERS n \<noteq> None"
    by (simp add: script_targets_def SERVERS_def)
  have h2: "map_of SERVERS ''rust'' = Some (''mcp-rust-server'', ''8084'')"
    by (simp add: SERVERS_def)
  have h3: "\<forall>w. \<not> fst (rust_down (CurlHealth ''8084'' ''/health'') w)"
    "\<forall>w. \<not> fst (rust_down (CurlHealth ''8084'' ''/actuator/health'') w)"
    "\<forall>w. \<not> fst (rust_down (CurlInitialize (health_url ''8084'') ''health'') w)"
    by (simp_all add: rust_down_def health_url_def)
  have m: "fst (main_setup rust_down demo_dirs fresh_shell)"
    by (simp add: main_setup_def run_def rust_down_def say_def fresh_shell_def
        wait_for_mock_api_def wait_for_mock_api_loop.simps)
  have e: "started (sh_log fresh_shell) = []" by (simp add: fresh_shell_def started_def)
  show ?thesis
    using unhealthy_target_is_skipped_and_run_continues [OF h1 h2 h3, of demo_dirs fresh_shell] m
    by (simp add: e script_targets_def)
qed

end
